theory Spec2Isabelle
  imports Main "HOL-Library.AList"
begin

section \<open>Data model of \<open>agentrm/agent_state.go\<close>\<close>

text \<open>
  Go maps are modelled as association lists: \<open>map_of\<close> is the lookup, \<open>AList.update\<close> the
  assignment \<open>m[k] = v\<close>, \<open>AList.delete\<close> the builtin \<open>delete(m, k)\<close>, \<open>length\<close> the builtin
  \<open>len(m)\<close> and the order of the entries is the order in which a \<open>range\<close> loop happens to
  visit them (Go leaves it unspecified; every statement below holds for every order).  A Go
  map has one entry per key, which is the condition \<open>distinct (map fst m)\<close>; it is assumed
  only where a statement needs it.

  A \<open>*cproto.ID\<close> is never written through, so it is an \<open>option\<close>: \<open>None\<close> is \<open>nil\<close>.  The
  \<open>*slot\<close> values of \<open>slotStates\<close> are created one per key (in \<open>agentStarted\<close> and
  \<open>newAgentStateFromSnapshot\<close>), so inside one aggregate a write through such a pointer is an
  update of the entry that holds it.  Sharing between two aggregates is the subject of the
  section on \<open>deepCopy\<close>, which has an explicit store.
\<close>

text \<open>
  Modelled from the spec: the declarations of \<open>device.Device\<close>, \<open>cproto.Container\<close> and
  \<open>cproto.State\<close> are not part of the sources at hand.  A device is a stable device ID with
  descriptive metadata; a container record is an ID, a state among Assigned, Starting,
  Running, Terminated (\<open>Unset\<close> is the zero value of a record created by
  \<open>allocateFreeDevices\<close>) and the devices it occupies.
\<close>

record device =
  device_ID :: int
  Brand :: string
  UUID :: string
  Type :: string

definition zero_device :: device where
  "zero_device = \<lparr>device_ID = 0, Brand = [], UUID = [], Type = []\<rparr>"

datatype State = Unset | Assigned | Starting | Running | Terminated

record Container =
  container_ID :: string
  container_State :: State
  container_Devices :: "device list"

record slotEnabled =
  deviceAdded :: bool
  agentEnabled :: bool
  userEnabled :: bool
  draining :: bool

definition enabled :: "slotEnabled \<Rightarrow> bool" where
  "enabled s = (agentEnabled s \<and> userEnabled s)"

record slot =
  device :: device
  slot_enabled :: slotEnabled
  containerID :: "string option"

text \<open>
  The aggregate.  The fields \<open>syslog\<close> and \<open>handler\<close> carry no scheduler state and are left
  out; the fields \<open>id\<close>, \<open>enabled\<close>, \<open>draining\<close> and \<open>uuid\<close> of the Go struct are
  \<open>agent_id\<close>, \<open>agent_enabled\<close>, \<open>agent_draining\<close> and \<open>agent_uuid\<close> here.
\<close>

record agentState =
  agent_id :: string
  Devices :: "(device \<times> string option) list"
  resourcePoolName :: string
  agent_enabled :: bool
  agent_draining :: bool
  agent_uuid :: string
  maxZeroSlotContainers :: int
  slotStates :: "(int \<times> slot) list"
  containerAllocation :: "(string \<times> string) list"
  containerState :: "(string \<times> Container) list"

definition newAgentState :: "string \<Rightarrow> int \<Rightarrow> string \<Rightarrow> agentState" where
  \<comment> \<open>The third argument is the value that \<open>uuid.New()\<close> draws.\<close>
  "newAgentState ident maxZero fresh_uuid =
     \<lparr>agent_id = ident, Devices = [], resourcePoolName = [], agent_enabled = True,
      agent_draining = False, agent_uuid = fresh_uuid, maxZeroSlotContainers = maxZero,
      slotStates = [], containerAllocation = [], containerState = []\<rparr>"

section \<open>Capacity accounting\<close>

definition numUsedSlots :: "agentState \<Rightarrow> int" where
  "numUsedSlots a = int (length (filter (\<lambda>(d, cid). cid \<noteq> None) (Devices a)))"

definition numSlots :: "agentState \<Rightarrow> int" where
  "numSlots a =
     (if agent_draining a then numUsedSlots a
      else if \<not> agent_enabled a then 0
      else int (length (Devices a)))"

definition numEmptySlots :: "agentState \<Rightarrow> int" where
  "numEmptySlots a =
     (if agent_draining a \<or> \<not> agent_enabled a then 0
      else numSlots a - numUsedSlots a)"

definition numUsedZeroSlots :: "agentState \<Rightarrow> int" where
  "numUsedZeroSlots a =
     int (length (filter (\<lambda>(cid, c). length (container_Devices c) = 0) (containerState a)))"

definition numZeroSlots :: "agentState \<Rightarrow> int" where
  "numZeroSlots a =
     (if agent_draining a then numUsedZeroSlots a
      else if \<not> agent_enabled a then 0
      else maxZeroSlotContainers a)"

definition numEmptyZeroSlots :: "agentState \<Rightarrow> int" where
  "numEmptyZeroSlots a =
     (if agent_draining a \<or> \<not> agent_enabled a then 0
      else numZeroSlots a - numUsedZeroSlots a)"

definition idle :: "agentState \<Rightarrow> bool" where
  "idle a = (numUsedZeroSlots a = 0 \<and> numUsedSlots a = 0)"

section \<open>Errors and published events\<close>

text \<open>
  Every error the methods build, by its message.  \<open>Panic\<close> is a run-time panic of the Go
  program (a nil dereference, a negative capacity given to \<open>make\<close>), \<open>StoreError\<close> an error
  that the relational store or the UUID parser hands back.
\<close>

datatype error =
    NotEnoughDevices
  | CantFindSlot
  | SlotNotEnabled
  | AlreadyAllocated
  | BadStartContainer int string error
  | DeviceCountChanged int int
  | DevicePropertiesChanged device device
  | DevicesChanged
  | BadUpdateSlotDeviceView int string
  | StoreError string
  | Panic string

text \<open>
  \<open>rmevents.Publish(topic, &sproto.ReleaseResources{Reason, ForceKill})\<close>: the methods that
  publish return the events in the order of publication.
\<close>

record ReleaseResources =
  topic :: string
  Reason :: string
  ForceKill :: bool

section \<open>Allocation and deallocation\<close>

text \<open>
  The first loop of \<open>allocateFreeDevices\<close>: it visits the entries of \<open>a.Devices\<close>, appends
  the devices without occupant and breaks as soon as \<open>slots\<close> of them are collected.
\<close>

fun collectFree :: "(device \<times> string option) list \<Rightarrow> int \<Rightarrow> device list \<Rightarrow> device list" where
  "collectFree [] slots devices = devices"
| "collectFree ((d, dcid) # rest) slots devices =
     (let devices' = (if dcid = None then devices @ [d] else devices)
      in if int (length devices') = slots then devices'
         else collectFree rest slots devices')"

text \<open>
  \<open>make([]device.Device, 0, slots)\<close> panics ("makeslice: cap out of range") when \<open>slots\<close>
  is negative, and also when a slice of that capacity is larger than the runtime can
  allocate.  \<open>capLimit\<close> is the largest capacity that \<open>make\<close> accepts for a slice of
  devices: the allocation limit of the runtime divided by the size of a \<open>device.Device\<close>.
  It depends on the platform and is a parameter; \<open>cap_limit_64\<close> is its value on a 64-bit
  platform, where the limit is \<open>2^48\<close> bytes and a device (an integer and three strings)
  takes 56 bytes.  A machine that runs out of memory below that limit is outside the model.
  The record of the container is registered before \<open>make\<close> is reached.
\<close>

definition cap_limit_64 :: int where
  "cap_limit_64 = 2 ^ 48 div 56"

definition allocateFreeDevices ::
  "int \<Rightarrow> int \<Rightarrow> string \<Rightarrow> agentState \<Rightarrow> (error + device list) \<times> agentState" where
  "allocateFreeDevices capLimit slots cid a =
     (let a1 = a\<lparr>containerState :=
                 AList.update cid
                   \<lparr>container_ID = cid, container_State = Unset, container_Devices = []\<rparr>
                   (containerState a)\<rparr>
      in if slots = 0 then (Inr [], a1)
         else if slots < 0 \<or> capLimit < slots then
           (Inl (Panic ''makeslice: cap out of range''), a1)
         else
           (let devices = collectFree (Devices a1) slots []
            in if int (length devices) \<noteq> slots then (Inl NotEnoughDevices, a1)
               else
                 (let a2 = a1\<lparr>Devices :=
                             foldl (\<lambda>m d. AList.update d (Some cid) m) (Devices a1) devices\<rparr>;
                      a3 = a2\<lparr>containerState :=
                             AList.map_entry cid (\<lambda>c. c\<lparr>container_Devices := devices\<rparr>)
                               (containerState a2)\<rparr>
                  in (Inr devices, a3))))"

definition deallocateContainer :: "string \<Rightarrow> agentState \<Rightarrow> agentState" where
  "deallocateContainer ident a =
     (let a1 = a\<lparr>containerState := AList.delete ident (containerState a)\<rparr>
      in a1\<lparr>Devices :=
             map (\<lambda>(d, cid). if cid \<noteq> None \<and> the cid = ident then (d, None) else (d, cid))
               (Devices a1)\<rparr>)"

definition addDevice :: "device \<Rightarrow> string option \<Rightarrow> agentState \<Rightarrow> agentState" where
  "addDevice dev cid a = a\<lparr>Devices := AList.update dev cid (Devices a)\<rparr>"

definition removeDevice :: "device \<Rightarrow> agentState \<Rightarrow> agentState" where
  "removeDevice dev a = a\<lparr>Devices := AList.delete dev (Devices a)\<rparr>"



definition clearOccupant :: "string \<Rightarrow> string option \<Rightarrow> string option" where
  "clearOccupant ident cid = (if cid \<noteq> None \<and> the cid = ident then None else cid)"

section \<open>Enabling, disabling and draining the agent\<close>

definition enable :: "agentState \<Rightarrow> agentState" where
  "enable a = a\<lparr>agent_enabled := True, agent_draining := False\<rparr>"

definition disable :: "bool \<Rightarrow> agentState \<Rightarrow> agentState" where
  "disable drain a = a\<lparr>agent_draining := drain, agent_enabled := False\<rparr>"

text \<open>A call of one of the two methods, and the states a sequence of calls leads to.\<close>

datatype toggle = Enable | Disable bool

fun apply_toggle :: "toggle \<Rightarrow> agentState \<Rightarrow> agentState" where
  "apply_toggle Enable a = enable a"
| "apply_toggle (Disable drain) a = disable drain a"

fun apply_toggles :: "toggle list \<Rightarrow> agentState \<Rightarrow> agentState" where
  "apply_toggles [] a = a"
| "apply_toggles (t # ts) a = apply_toggles ts (apply_toggle t a)"

section \<open>Slots: the device view, container events, administrative patches\<close>

text \<open>
  \<open>updateSlotDeviceView\<close> returns the new state and the force-release events it has
  published.  \<open>a.containerAllocation[*s.containerID]\<close> reads a Go map: a missing key gives the
  zero value, the empty allocation ID.
\<close>

definition allocationOf :: "agentState \<Rightarrow> string \<Rightarrow> string" where
  "allocationOf a cid = (case map_of (containerAllocation a) cid of None \<Rightarrow> [] | Some al \<Rightarrow> al)"

definition updateSlotDeviceView :: "int \<Rightarrow> agentState \<Rightarrow> agentState \<times> ReleaseResources list" where
  "updateSlotDeviceView deviceID a =
     (case map_of (slotStates a) deviceID of
        None \<Rightarrow> (a, [])
      | Some s \<Rightarrow>
          if enabled (slot_enabled s) \<and> \<not> deviceAdded (slot_enabled s) then
            (let s1 = s\<lparr>slot_enabled := (slot_enabled s)\<lparr>deviceAdded := True\<rparr>\<rparr>;
                 a1 = a\<lparr>slotStates := AList.update deviceID s1 (slotStates a)\<rparr>
             in (addDevice (device s1) (containerID s1) a1, []))
          else if \<not> enabled (slot_enabled s) then
            (let (s1, a1) =
                   (if \<not> draining (slot_enabled s) \<and> deviceAdded (slot_enabled s) then
                      (let s' = s\<lparr>slot_enabled := (slot_enabled s)\<lparr>deviceAdded := False\<rparr>\<rparr>
                       in (s', removeDevice (device s')
                                 (a\<lparr>slotStates := AList.update deviceID s' (slotStates a)\<rparr>)))
                    else (s, a))
             in if \<not> draining (slot_enabled s1) \<and> containerID s1 \<noteq> None then
                  (a1, [\<lparr>topic = allocationOf a1 (the (containerID s1)),
                         Reason = ''slot disabled'', ForceKill = True\<rparr>])
                else (a1, []))
          else (a, []))"

text \<open>
  Modelled from the spec: \<open>aproto.AgentStarted\<close>, \<open>aproto.ContainerStateChanged\<close> and
  \<open>sproto.StartTaskContainer\<close> are declared outside the sources at hand; they are the typed
  events \<open>AgentStarted{devices, resourcePoolName}\<close>, \<open>ContainerStateChanged{container}\<close> and
  \<open>StartTaskContainer{container, allocationID}\<close>.
\<close>

record AgentStarted =
  started_Devices :: "device list"
  started_ResourcePoolName :: string

record ContainerStateChanged =
  changed_Container :: Container

record StartTaskContainer =
  start_AllocationID :: string
  start_Container :: Container

text \<open>
  \<open>agentStarted\<close>: one fresh slot per reported device, then the device view is brought up
  to date.  The write to the store that follows (\<open>persist\<close>) is best effort: its failure is
  logged and nothing else depends on it.
\<close>

fun agentStarted_loop :: "device list \<Rightarrow> agentState \<Rightarrow> agentState \<times> ReleaseResources list" where
  "agentStarted_loop [] a = (a, [])"
| "agentStarted_loop (d # ds) a =
     (let en = \<lparr>deviceAdded = False, agentEnabled = True, userEnabled = True, draining = False\<rparr>;
          a1 = a\<lparr>slotStates :=
                  AList.update (device_ID d)
                    \<lparr>device = d, slot_enabled = en, containerID = None\<rparr> (slotStates a)\<rparr>;
          (a2, evs) = updateSlotDeviceView (device_ID d) a1;
          (a3, evs') = agentStarted_loop ds a2
      in (a3, evs @ evs'))"

definition agentStarted :: "AgentStarted \<Rightarrow> agentState \<Rightarrow> agentState \<times> ReleaseResources list" where
  "agentStarted msg a = agentStarted_loop (started_Devices msg) a"

text \<open>
  \<open>containerStateChanged\<close>: the loop over the devices of the reported container skips a
  device without slot (\<open>continue\<close>).  The two writes to the store at the end are best effort.
\<close>

fun containerStateChanged_loop :: "Container \<Rightarrow> device list \<Rightarrow> agentState \<Rightarrow> agentState" where
  "containerStateChanged_loop c [] a = a"
| "containerStateChanged_loop c (d # ds) a =
     (case map_of (slotStates a) (device_ID d) of
        None \<Rightarrow> containerStateChanged_loop c ds a
      | Some s \<Rightarrow>
          (let s1 = s\<lparr>containerID := Some (container_ID c)\<rparr>;
               s2 = (if container_State c = Terminated then s1\<lparr>containerID := None\<rparr> else s1)
           in containerStateChanged_loop c ds
                (a\<lparr>slotStates := AList.update (device_ID d) s2 (slotStates a)\<rparr>)))"

definition containerStateChanged :: "ContainerStateChanged \<Rightarrow> agentState \<Rightarrow> agentState" where
  "containerStateChanged msg a =
     (let c = changed_Container msg;
          a1 = containerStateChanged_loop c (container_Devices c) a;
          a2 = a1\<lparr>containerState := AList.update (container_ID c) c (containerState a1)\<rparr>
      in if container_State c = Terminated
         then a2\<lparr>containerState := AList.delete (container_ID c) (containerState a2)\<rparr>
         else a2)"

text \<open>
  \<open>startContainer\<close>.  The closure \<open>inner\<close> checks one device and, when the checks pass,
  claims its slot and installs the container record; the loop returns at the first device
  that fails, with the wrapped error, and what the earlier iterations wrote stays written:
  the method returns the error and the state it leaves behind.
\<close>

definition inner :: "StartTaskContainer \<Rightarrow> int \<Rightarrow> agentState \<Rightarrow> error + agentState" where
  "inner msg deviceId a =
     (case map_of (slotStates a) deviceId of
        None \<Rightarrow> Inl CantFindSlot
      | Some s \<Rightarrow>
          if \<not> enabled (slot_enabled s) then Inl SlotNotEnabled
          else if containerID s \<noteq> None then Inl AlreadyAllocated
          else
            Inr (a\<lparr>slotStates :=
                     AList.update deviceId
                       (s\<lparr>containerID := Some (container_ID (start_Container msg))\<rparr>)
                       (slotStates a),
                   containerState :=
                     AList.update (container_ID (start_Container msg)) (start_Container msg)
                       (containerState a)\<rparr>))"

fun startContainer_loop ::
  "StartTaskContainer \<Rightarrow> device list \<Rightarrow> agentState \<Rightarrow> error option \<times> agentState" where
  "startContainer_loop msg [] a = (None, a)"
| "startContainer_loop msg (d # ds) a =
     (case inner msg (device_ID d) a of
        Inl err \<Rightarrow> (Some (BadStartContainer (device_ID d) (agent_id a) err), a)
      | Inr a' \<Rightarrow> startContainer_loop msg ds a')"

definition startContainer :: "StartTaskContainer \<Rightarrow> agentState \<Rightarrow> error option \<times> agentState" where
  "startContainer msg a =
     (case startContainer_loop msg (container_Devices (start_Container msg)) a of
        (Some err, a') \<Rightarrow> (Some err, a')
      | (None, a') \<Rightarrow>
          (None, a'\<lparr>containerAllocation :=
                      AList.update (container_ID (start_Container msg)) (start_AllocationID msg)
                        (containerAllocation a')\<rparr>))"

text \<open>A slot once \<open>startContainer\<close> has given it to a container.\<close>

definition claimed :: "string \<Rightarrow> slot \<Rightarrow> slot" where
  "claimed cid s = s\<lparr>containerID := Some cid\<rparr>"

text \<open>
  \<open>getSlotSummary\<close> dereferences \<open>a.slotStates[deviceID]\<close> without a check: on a device
  without slot it panics.  The field \<open>ID\<close> of the summary is the decimal rendering
  (\<open>strconv.Itoa\<close>) of the number kept here.
\<close>

record SlotSummary =
  summary_ID :: int
  summary_Device :: device
  summary_Enabled :: bool
  summary_Container :: "Container option"
  summary_Draining :: bool

definition getSlotSummary :: "int \<Rightarrow> agentState \<Rightarrow> error + SlotSummary" where
  "getSlotSummary deviceID a =
     (case map_of (slotStates a) deviceID of
        None \<Rightarrow> Inl (Panic ''nil pointer dereference'')
      | Some s \<Rightarrow>
          Inr \<lparr>summary_ID = device_ID (device s),
               summary_Device = device s,
               summary_Enabled = enabled (slot_enabled s),
               summary_Container =
                 (case containerID s of None \<Rightarrow> None
                  | Some cid \<Rightarrow> map_of (containerState a) cid),
               summary_Draining = draining (slot_enabled s)\<rparr>)"

text \<open>
  The administrative patch \<open>patchSlotState{id, enabled *bool, drain *bool}\<close>.
  \<open>patchSlotStateInner\<close> receives the \<open>*slot\<close> to patch; both callers take it out of
  \<open>a.slotStates\<close>, so here it is given by the key \<open>k\<close> that holds it.  The view is then
  updated for the device ID written inside the slot, as in the source.  The result is the
  summary, the new state and the events published.
\<close>

record patchSlotState =
  patch_id :: int
  patch_enabled :: "bool option"
  patch_drain :: "bool option"

definition patchSlotStateInner ::
  "patchSlotState \<Rightarrow> int \<Rightarrow> agentState \<Rightarrow>
     (error + SlotSummary) \<times> agentState \<times> ReleaseResources list" where
  "patchSlotStateInner msg k a =
     (case map_of (slotStates a) k of
        None \<Rightarrow> (Inl (Panic ''nil pointer dereference''), a, [])
      | Some s \<Rightarrow>
          (let s1 = (case patch_enabled msg of
                       None \<Rightarrow> s
                     | Some b \<Rightarrow> s\<lparr>slot_enabled := (slot_enabled s)\<lparr>userEnabled := b\<rparr>\<rparr>);
               s2 = (case patch_drain msg of
                       None \<Rightarrow> s1
                     | Some b \<Rightarrow> s1\<lparr>slot_enabled := (slot_enabled s1)\<lparr>draining := b\<rparr>\<rparr>);
               a1 = a\<lparr>slotStates := AList.update k s2 (slotStates a)\<rparr>;
               (a2, evs) = updateSlotDeviceView (device_ID (device s2)) a1
           in (getSlotSummary (device_ID (device s2)) a2, a2, evs)))"

definition patchSlotState ::
  "patchSlotState \<Rightarrow> agentState \<Rightarrow>
     (error + SlotSummary) \<times> agentState \<times> ReleaseResources list" where
  "patchSlotState msg a =
     (case map_of (slotStates a) (patch_id msg) of
        None \<Rightarrow> (Inl (BadUpdateSlotDeviceView (patch_id msg) (agent_id a)), a, [])
      | Some s \<Rightarrow> patchSlotStateInner msg (patch_id msg) a)"

text \<open>
  Every slot is stored under the ID of its own device: \<open>agentStarted\<close> and
  \<open>newAgentStateFromSnapshot\<close>, the only places that create a slot, store it so.
\<close>

definition slots_keyed :: "agentState \<Rightarrow> bool" where
  "slots_keyed a = (\<forall>(k, s) \<in> set (slotStates a). device_ID (device s) = k)"

section \<open>Validation of a reconnecting agent\<close>

text \<open>
  \<open>checkAgentStartedDevicesMatch\<close> only reads the aggregate, so its model has no state
  result.  It builds two maps from device ID to device, one from the slots and one from the
  report (a later entry of the report replaces an earlier one with the same ID), and compares
  them: first their sizes, then with \<open>maps.Equal\<close>.  Reading a Go map at a missing key gives
  the zero value.
\<close>

definition maps_Equal :: "('k \<times> 'v) list \<Rightarrow> ('k \<times> 'v) list \<Rightarrow> bool" where
  "maps_Equal m1 m2 =
     (length m1 = length m2 \<and>
      list_all (\<lambda>(k, v1). case map_of m2 k of None \<Rightarrow> False | Some v2 \<Rightarrow> v1 = v2) m1)"

definition index_device :: "(int \<times> device) list \<Rightarrow> int \<Rightarrow> device" where
  "index_device m k = (case map_of m k of None \<Rightarrow> zero_device | Some d \<Rightarrow> d)"

fun firstChanged :: "int list \<Rightarrow> (int \<times> device) list \<Rightarrow> (int \<times> device) list \<Rightarrow> error" where
  "firstChanged [] ourDevices theirDevices = DevicesChanged"
| "firstChanged (k # ks) ourDevices theirDevices =
     (if index_device ourDevices k \<noteq> index_device theirDevices k
      then DevicePropertiesChanged (index_device ourDevices k) (index_device theirDevices k)
      else firstChanged ks ourDevices theirDevices)"

definition ourDevices :: "agentState \<Rightarrow> (int \<times> device) list" where
  "ourDevices a = foldl (\<lambda>m (did, s). AList.update did (device s) m) [] (slotStates a)"

definition theirDevices :: "AgentStarted \<Rightarrow> (int \<times> device) list" where
  "theirDevices msg = foldl (\<lambda>m d. AList.update (device_ID d) d m) [] (started_Devices msg)"

definition checkAgentStartedDevicesMatch :: "AgentStarted \<Rightarrow> agentState \<Rightarrow> error option" where
  "checkAgentStartedDevicesMatch msg a =
     (if length (ourDevices a) \<noteq> length (theirDevices msg) then
        Some (DeviceCountChanged (int (length (ourDevices a))) (int (length (theirDevices msg))))
      else if \<not> maps_Equal (ourDevices a) (theirDevices msg) then
        Some (firstChanged (map fst (ourDevices a)) (ourDevices a) (theirDevices msg))
      else None)"

section \<open>Persistence and recovery\<close>

text \<open>
  The snapshot types, as far as the code at hand reads and writes their fields.
\<close>

record slotData =
  data_Device :: device
  data_UserEnabled :: bool
  data_ContainerID :: "string option"

record agentSnapshot =
  snap_AgentID :: string
  snap_UUID :: string
  snap_ResourcePoolName :: string
  snap_UserEnabled :: bool
  snap_UserDraining :: bool
  snap_MaxZeroSlotContainers :: int
  snap_Slots :: "slotData list"
  snap_Containers :: "string list"

definition snapshot :: "agentState \<Rightarrow> agentSnapshot" where
  "snapshot a =
     \<lparr>snap_AgentID = agent_id a,
      snap_UUID = agent_uuid a,
      snap_ResourcePoolName = resourcePoolName a,
      snap_UserEnabled = agent_enabled a,
      snap_UserDraining = agent_draining a,
      snap_MaxZeroSlotContainers = maxZeroSlotContainers a,
      snap_Slots =
        map (\<lambda>(k, slotState).
               \<lparr>data_Device = device slotState,
                data_UserEnabled = userEnabled (slot_enabled slotState),
                data_ContainerID = containerID slotState\<rparr>) (slotStates a),
      snap_Containers = map fst (containerState a)\<rparr>"

text \<open>
  \<open>newAgentStateFromSnapshot\<close> depends on two collaborators that are parameters here:
  \<open>uuid.Parse\<close> (\<open>parse\<close>, \<open>None\<close> when it fails) and the query of the container snapshots
  whose ID is among the given ones (\<open>select\<close>, the rows already turned into containers by
  \<open>ToContainer\<close>, or the error of the store).  The field \<open>agent_uuid\<close> holds the UUID in the
  text form that \<open>String()\<close> prints.
\<close>

fun restoreSlots ::
  "agentSnapshot \<Rightarrow> slotData list \<Rightarrow>
     (int \<times> slot) list \<times> (device \<times> string option) list \<Rightarrow>
     (int \<times> slot) list \<times> (device \<times> string option) list" where
  "restoreSlots as [] (slots, devices) = (slots, devices)"
| "restoreSlots as (sd # sds) (slots, devices) =
     restoreSlots as sds
       (AList.update (device_ID (data_Device sd))
          \<lparr>device = data_Device sd,
           slot_enabled = \<lparr>deviceAdded = True, agentEnabled = snap_UserEnabled as,
                            userEnabled = snap_UserEnabled as,
                            draining = snap_UserDraining as\<rparr>,
           containerID = data_ContainerID sd\<rparr> slots,
        (if data_ContainerID sd \<noteq> None
         then AList.update (data_Device sd) (data_ContainerID sd) devices
         else AList.update (data_Device sd) None devices))"

definition newAgentStateFromSnapshot ::
  "(string \<Rightarrow> string option) \<Rightarrow> (string list \<Rightarrow> error + Container list) \<Rightarrow>
     agentSnapshot \<Rightarrow> error + agentState" where
  "newAgentStateFromSnapshot parse select as =
     (case parse (snap_UUID as) of
        None \<Rightarrow> Inl (StoreError ''invalid UUID'')
      | Some parsedUUID \<Rightarrow>
          (let (slots, devices) = restoreSlots as (snap_Slots as) ([], []);
               result = (\<lambda>containers.
                 \<lparr>agent_id = snap_AgentID as, Devices = devices,
                  resourcePoolName = snap_ResourcePoolName as,
                  agent_enabled = snap_UserEnabled as,
                  agent_draining = snap_UserDraining as,
                  agent_uuid = parsedUUID,
                  maxZeroSlotContainers = snap_MaxZeroSlotContainers as,
                  slotStates = slots, containerAllocation = [],
                  containerState = containers\<rparr>)
           in if length (snap_Containers as) > 0 then
                (case select (snap_Containers as) of
                   Inl err \<Rightarrow> Inl err
                 | Inr containerSnapshots \<Rightarrow>
                     Inr (result (foldl (\<lambda>m c. AList.update (container_ID c) c m) []
                                   containerSnapshots)))
              else Inr (result [])))"

text \<open>
  \<open>clearUnlessRecovered\<close>.  Of the map \<open>recovered\<close> only the keys are read.  The first loop
  visits the keys of \<open>a.Devices\<close> and reads the occupant of each from the map; clearing an
  occupant it also writes \<open>a.slotStates[d.ID].containerID\<close>, which panics when the device has
  no slot.  The method returns the error of \<open>persist\<close> (\<open>persistErr\<close>, a parameter) when
  something was cleared; the state is changed in place whatever is returned.  \<open>Inl\<close> is a
  panic.
\<close>

fun clearDevices ::
  "(string \<times> 'ack) list \<Rightarrow> device list \<Rightarrow> agentState \<times> bool \<Rightarrow> error + agentState \<times> bool" where
  "clearDevices recovered [] (a, updated) = Inr (a, updated)"
| "clearDevices recovered (d # ds) (a, updated) =
     (case map_of (Devices a) d of
        Some (Some cID) \<Rightarrow>
          if map_of recovered cID = None then
            (case map_of (slotStates a) (device_ID d) of
               None \<Rightarrow> Inl (Panic ''nil pointer dereference'')
             | Some s \<Rightarrow>
                 clearDevices recovered ds
                   (a\<lparr>Devices := AList.update d None (Devices a),
                      slotStates :=
                        AList.update (device_ID d) (s\<lparr>containerID := None\<rparr>) (slotStates a)\<rparr>,
                    True))
          else clearDevices recovered ds (a, updated)
      | _ \<Rightarrow> clearDevices recovered ds (a, updated))"

definition unrecoveredSlot :: "(string \<times> 'ack) list \<Rightarrow> slot \<Rightarrow> bool" where
  "unrecoveredSlot recovered s =
     (containerID s \<noteq> None \<and> map_of recovered (the (containerID s)) = None)"

definition clearUnlessRecovered ::
  "(string \<times> 'ack) list \<Rightarrow> error option \<Rightarrow> agentState \<Rightarrow>
     error + error option \<times> agentState" where
  "clearUnlessRecovered recovered persistErr a =
     (case clearDevices recovered (map fst (Devices a)) (a, False) of
        Inl panic \<Rightarrow> Inl panic
      | Inr (a1, updated1) \<Rightarrow>
          (let a2 = a1\<lparr>slotStates :=
                       map (\<lambda>(k, s). if unrecoveredSlot recovered s
                                      then (k, s\<lparr>containerID := None\<rparr>) else (k, s))
                         (slotStates a1)\<rparr>;
               updated2 = (updated1 \<or> list_ex (\<lambda>(k, s). unrecoveredSlot recovered s)
                                          (slotStates a1));
               a3 = a2\<lparr>containerState :=
                       filter (\<lambda>(cid, c). map_of recovered cid \<noteq> None) (containerState a2)\<rparr>;
               updated3 = (updated2 \<or> list_ex (\<lambda>(cid, c). map_of recovered cid = None)
                                          (containerState a2));
               a4 = a3\<lparr>containerAllocation :=
                       filter (\<lambda>(cid, al). map_of recovered cid \<noteq> None)
                         (containerAllocation a3)\<rparr>;
               updated4 = (updated3 \<or> list_ex (\<lambda>(cid, al). map_of recovered cid = None)
                                          (containerAllocation a3))
           in if updated4 then Inr (persistErr, a4) else Inr (None, a4)))"

text \<open>
  A device of the view whose occupant is not among the recovered containers.
\<close>

definition unrecoveredDevice :: "(string \<times> 'ack) list \<Rightarrow> agentState \<Rightarrow> device \<Rightarrow> bool" where
  "unrecoveredDevice recovered a d =
     (case map_of (Devices a) d of
        Some (Some cID) \<Rightarrow> map_of recovered cID = None
      | _ \<Rightarrow> False)"

definition vacate :: "slot \<Rightarrow> slot" where
  "vacate s = s\<lparr>containerID := None\<rparr>"

text \<open>
  What a snapshot keeps of a slot: its device and its occupant.  Of the four flags,
  \<open>deviceAdded\<close> is set, and \<open>agentEnabled\<close> and \<open>draining\<close> are taken from the agent.
\<close>

definition slotView :: "slot \<Rightarrow> device \<times> string option \<times> bool \<times> bool \<times> bool" where
  "slotView s =
     (device s, containerID s, deviceAdded (slot_enabled s), agentEnabled (slot_enabled s),
      draining (slot_enabled s))"

text \<open>The slot that \<open>newAgentStateFromSnapshot\<close> builds from one entry of \<open>Slots\<close>.\<close>

definition restoredSlot :: "agentSnapshot \<Rightarrow> slotData \<Rightarrow> slot" where
  "restoredSlot as sd =
     \<lparr>device = data_Device sd,
      slot_enabled = \<lparr>deviceAdded = True, agentEnabled = snap_UserEnabled as,
                       userEnabled = snap_UserEnabled as, draining = snap_UserDraining as\<rparr>,
      containerID = data_ContainerID sd\<rparr>"

text \<open>The entry of \<open>Slots\<close> that \<open>snapshot\<close> writes for one slot.\<close>

definition slotDataOf :: "slot \<Rightarrow> slotData" where
  "slotDataOf s =
     \<lparr>data_Device = device s, data_UserEnabled = userEnabled (slot_enabled s),
      data_ContainerID = containerID s\<rparr>"

section \<open>\<open>deepCopy\<close>: two aggregates in one store\<close>

text \<open>
  A Go map value is a reference to a map object, and \<open>deepCopy\<close> builds a second struct
  whose fields refer to map objects of the first or to clones of them.  Here the sharing is
  explicit: a store holds the map objects, by address, and the struct (\<open>agentRef\<close>) holds
  its scalar fields by value and, for each map field, the address of the map object
  (\<open>None\<close> is the nil map, which reads as an empty map).

  The map object of \<open>slotStates\<close> holds pointers to slots, each stored in that one map
  object, so the object is kept with the slots it points to.  The map object of
  \<open>containerState\<close> holds pointers to container records; no method writes through such a
  pointer except \<open>allocateFreeDevices\<close>, on the record that the same call has just created
  and installed, so the object is kept with the records by value.
\<close>

type_synonym addr = nat

record heap =
  deviceMaps :: "addr \<Rightarrow> (device \<times> string option) list option"
  slotMaps :: "addr \<Rightarrow> (int \<times> slot) list option"
  containerMaps :: "addr \<Rightarrow> (string \<times> Container) list option"
  allocationMaps :: "addr \<Rightarrow> (string \<times> string) list option"
  next_addr :: addr

record agentRef =
  ref_id :: string
  ref_Devices :: "addr option"
  ref_resourcePoolName :: string
  ref_enabled :: bool
  ref_draining :: bool
  ref_uuid :: string
  ref_maxZeroSlotContainers :: int
  ref_slotStates :: "addr option"
  ref_containerAllocation :: "addr option"
  ref_containerState :: "addr option"

definition read_map :: "(addr \<Rightarrow> 'm list option) \<Rightarrow> addr option \<Rightarrow> 'm list" where
  "read_map objs r =
     (case r of None \<Rightarrow> []
      | Some p \<Rightarrow> (case objs p of None \<Rightarrow> [] | Some m \<Rightarrow> m))"

text \<open>The aggregate that a struct stands for in a store.\<close>

definition view :: "heap \<Rightarrow> agentRef \<Rightarrow> agentState" where
  "view h p =
     \<lparr>agent_id = ref_id p,
      Devices = read_map (deviceMaps h) (ref_Devices p),
      resourcePoolName = ref_resourcePoolName p,
      agent_enabled = ref_enabled p,
      agent_draining = ref_draining p,
      agent_uuid = ref_uuid p,
      maxZeroSlotContainers = ref_maxZeroSlotContainers p,
      slotStates = read_map (slotMaps h) (ref_slotStates p),
      containerAllocation = read_map (allocationMaps h) (ref_containerAllocation p),
      containerState = read_map (containerMaps h) (ref_containerState p)\<rparr>"

text \<open>
  \<open>newAgentState\<close> and \<open>newAgentStateFromSnapshot\<close> allocate the four maps of the struct
  they return: \<open>allocate\<close> puts an aggregate into a store in that way.
\<close>

definition allocate :: "heap \<Rightarrow> agentState \<Rightarrow> heap \<times> agentRef" where
  "allocate h a =
     (let n = next_addr h
      in (\<lparr>deviceMaps = (deviceMaps h)(n \<mapsto> Devices a),
           slotMaps = (slotMaps h)(n + 1 \<mapsto> slotStates a),
           containerMaps = (containerMaps h)(n + 2 \<mapsto> containerState a),
           allocationMaps = (allocationMaps h)(n + 3 \<mapsto> containerAllocation a),
           next_addr = n + 4\<rparr>,
          \<lparr>ref_id = agent_id a, ref_Devices = Some n,
           ref_resourcePoolName = resourcePoolName a, ref_enabled = agent_enabled a,
           ref_draining = agent_draining a, ref_uuid = agent_uuid a,
           ref_maxZeroSlotContainers = maxZeroSlotContainers a,
           ref_slotStates = Some (n + 1), ref_containerAllocation = Some (n + 3),
           ref_containerState = Some (n + 2)\<rparr>))"

definition empty_heap :: heap where
  "empty_heap =
     \<lparr>deviceMaps = (\<lambda>p. None), slotMaps = (\<lambda>p. None), containerMaps = (\<lambda>p. None),
      allocationMaps = (\<lambda>p. None), next_addr = 0\<rparr>"

text \<open>
  A method with receiver \<open>a *agentState\<close>, run in a store: it computes on the aggregate
  that the struct stands for, assigns the scalar fields of the struct and writes the entries
  of the map objects the struct refers to.  It is modelled for a receiver whose four maps
  are allocated (a write to a nil map panics); \<open>f\<close> is the method on aggregates, as modelled
  in the sections above.
\<close>

definition exec :: "(agentState \<Rightarrow> agentState) \<Rightarrow> heap \<Rightarrow> agentRef \<Rightarrow> (heap \<times> agentRef) option" where
  "exec f h p =
     (case (ref_Devices p, ref_slotStates p, ref_containerState p, ref_containerAllocation p) of
        (Some d, Some s, Some c, Some al) \<Rightarrow>
          (let a' = f (view h p)
           in Some (h\<lparr>deviceMaps := (deviceMaps h)(d \<mapsto> Devices a'),
                      slotMaps := (slotMaps h)(s \<mapsto> slotStates a'),
                      containerMaps := (containerMaps h)(c \<mapsto> containerState a'),
                      allocationMaps := (allocationMaps h)(al \<mapsto> containerAllocation a')\<rparr>,
                    p\<lparr>ref_id := agent_id a', ref_resourcePoolName := resourcePoolName a',
                      ref_enabled := agent_enabled a', ref_draining := agent_draining a',
                      ref_uuid := agent_uuid a',
                      ref_maxZeroSlotContainers := maxZeroSlotContainers a'\<rparr>))
      | _ \<Rightarrow> None)"

text \<open>
  \<open>deepCopy\<close>.  \<open>maps.Clone\<close> makes a new map object with the entries of its argument (of
  a nil map it returns nil); \<open>slotStates\<close> is assigned as it is, the reference to the same
  map object; \<open>containerAllocation\<close> and \<open>uuid\<close> are not set in the copy and have their zero
  values, the nil map and the zero UUID.
\<close>

definition maps_Clone ::
  "(addr \<Rightarrow> 'm list option) \<Rightarrow> addr option \<Rightarrow> addr \<Rightarrow> (addr \<Rightarrow> 'm list option) \<times> addr option" where
  "maps_Clone objs r fresh =
     (case r of None \<Rightarrow> (objs, None)
      | Some p \<Rightarrow> (objs(fresh \<mapsto> read_map objs r), Some fresh))"

definition zero_uuid :: string where
  "zero_uuid = ''00000000-0000-0000-0000-000000000000''"

definition deepCopy :: "heap \<Rightarrow> agentRef \<Rightarrow> heap \<times> agentRef" where
  "deepCopy h a =
     (let n = next_addr h;
          (dm, devs) = maps_Clone (deviceMaps h) (ref_Devices a) n;
          (cm, conts) = maps_Clone (containerMaps h) (ref_containerState a) (n + 1)
      in (h\<lparr>deviceMaps := dm, containerMaps := cm, next_addr := n + 2\<rparr>,
          \<lparr>ref_id = ref_id a, ref_Devices = devs,
           ref_resourcePoolName = ref_resourcePoolName a, ref_enabled = ref_enabled a,
           ref_draining = ref_draining a, ref_uuid = zero_uuid,
           ref_maxZeroSlotContainers = ref_maxZeroSlotContainers a,
           ref_slotStates = ref_slotStates a, ref_containerAllocation = None,
           ref_containerState = conts\<rparr>))"

text \<open>The maps of a struct are allocated in a store.\<close>

definition allocated :: "heap \<Rightarrow> agentRef \<Rightarrow> bool" where
  "allocated h p =
     (case (ref_Devices p, ref_slotStates p, ref_containerState p, ref_containerAllocation p) of
        (Some d, Some s, Some c, Some al) \<Rightarrow>
          d < next_addr h \<and> s < next_addr h \<and> c < next_addr h \<and> al < next_addr h
      | _ \<Rightarrow> False)"

section \<open>Example states\<close>

definition gpu :: "int \<Rightarrow> device" where
  "gpu n = \<lparr>device_ID = n, Brand = ''nvidia'', UUID = ''GPU'', Type = ''cuda''\<rparr>"

definition two_gpus :: agentState where
  "two_gpus = (newAgentState ''agent-1'' 4 ''u-1'')
     \<lparr>Devices := [(gpu 0, Some ''c1''), (gpu 1, None)]\<rparr>"

text \<open>
  An agent that has reported two devices, and a request to start a container on the first
  of them and on a device the agent does not have.
\<close>

definition started_two :: agentState where
  "started_two =
     fst (agentStarted
            \<lparr>started_Devices = [gpu 0, gpu 1], started_ResourcePoolName = ''default''\<rparr>
            (newAgentState ''agent-1'' 4 ''u-1''))"

definition start_c2 :: StartTaskContainer where
  "start_c2 =
     \<lparr>start_AllocationID = ''alloc-2'',
      start_Container =
        \<lparr>container_ID = ''c2'', container_State = Assigned,
         container_Devices = [gpu 0, gpu 7]\<rparr>\<rparr>"

text \<open>
  The same agent once a container runs on its first device, and two patches of that slot:
  disable it, and disable it with a drain.
\<close>

definition start_c2_on_0 :: StartTaskContainer where
  "start_c2_on_0 =
     \<lparr>start_AllocationID = ''alloc-2'',
      start_Container =
        \<lparr>container_ID = ''c2'', container_State = Assigned, container_Devices = [gpu 0]\<rparr>\<rparr>"

definition running_c2 :: agentState where
  "running_c2 = snd (startContainer start_c2_on_0 started_two)"

definition disable_slot_0 :: patchSlotState where
  "disable_slot_0 = \<lparr>patch_id = 0, patch_enabled = Some False, patch_drain = Some False\<rparr>"

definition drain_slot_0 :: patchSlotState where
  "drain_slot_0 = \<lparr>patch_id = 0, patch_enabled = Some False, patch_drain = Some True\<rparr>"

text \<open>
  A report that lists device 0 twice, first with another brand, then as the agent knows it.
\<close>

definition report_twice :: AgentStarted where
  "report_twice =
     \<lparr>started_Devices = [(gpu 0)\<lparr>Brand := ''amd''\<rparr>, gpu 0, gpu 1],
      started_ResourcePoolName = ''default''\<rparr>"

definition report_same :: AgentStarted where
  "report_same =
     \<lparr>started_Devices = [gpu 1, gpu 0], started_ResourcePoolName = ''default''\<rparr>"

definition report_other :: AgentStarted where
  "report_other =
     \<lparr>started_Devices = [gpu 0, (gpu 1)\<lparr>Brand := ''amd''\<rparr>],
      started_ResourcePoolName = ''default''\<rparr>"

text \<open>
  The scheduler has reserved device 0 for a container \<open>c1\<close> (\<open>allocateFreeDevices\<close>), and
  the container \<open>c2\<close> has been started on the slot of device 0 (\<open>startContainer\<close>); after a
  restart only \<open>c2\<close> is recovered.
\<close>

definition mixed_occupants :: agentState where
  "mixed_occupants =
     snd (startContainer start_c2_on_0
            (snd (allocateFreeDevices cap_limit_64 1 ''c1'' started_two)))"

definition only_c2 :: "(string \<times> unit) list" where
  "only_c2 = [(''c2'', ())]"

text \<open>
  The agent after the slot of device 0 has been disabled by a patch, and a store that holds
  the row of the container \<open>c2\<close>; the UUID parser accepts every text.
\<close>

definition slot_0_disabled :: agentState where
  "slot_0_disabled = fst (snd (patchSlotState disable_slot_0 running_c2))"

definition store_c2 :: "string list \<Rightarrow> error + Container list" where
  "store_c2 ids = Inr (filter (\<lambda>c. container_ID c \<in> set ids) [start_Container start_c2_on_0])"

text \<open>
  The agent with two devices in a store, a copy of it, and the report that the container
  \<open>c2\<close> runs on device 0.
\<close>

definition c2_running :: ContainerStateChanged where
  "c2_running =
     \<lparr>changed_Container =
        \<lparr>container_ID = ''c2'', container_State = Running, container_Devices = [gpu 0]\<rparr>\<rparr>"

definition original_ref :: agentRef where
  "original_ref = snd (allocate empty_heap started_two)"

definition heap_after_copy :: heap where
  "heap_after_copy = fst (deepCopy (fst (allocate empty_heap started_two)) original_ref)"

definition copy_ref :: agentRef where
  "copy_ref = snd (deepCopy (fst (allocate empty_heap started_two)) original_ref)"

text \<open>
  The aggregate that a restarted master recovers from the snapshot of the agent running
  \<open>c2\<close> on device 0: the container-to-allocation map is empty until a later step fills
  it from the store.
\<close>

definition recovered_c2 :: agentState where
  "recovered_c2 =
     \<lparr>agent_id = ''agent-1'', Devices = [(gpu 0, Some ''c2''), (gpu 1, None)],
      resourcePoolName = [], agent_enabled = True, agent_draining = False,
      agent_uuid = ''u-1'', maxZeroSlotContainers = 4,
      slotStates =
        [(0, \<lparr>device = gpu 0,
              slot_enabled = \<lparr>deviceAdded = True, agentEnabled = True,
                               userEnabled = True, draining = False\<rparr>,
              containerID = Some ''c2''\<rparr>),
         (1, \<lparr>device = gpu 1,
              slot_enabled = \<lparr>deviceAdded = True, agentEnabled = True,
                               userEnabled = True, draining = False\<rparr>,
              containerID = None\<rparr>)],
      containerAllocation = [],
      containerState =
        [(''c2'', \<lparr>container_ID = ''c2'', container_State = Assigned,
                    container_Devices = [gpu 0]\<rparr>)]\<rparr>"

section \<open>Theorems\<close>

subsection \<open>Capacity by mode\<close>

lemma numUsedSlots_le: "numUsedSlots a \<le> int (length (Devices a))"
  by (simp add: numUsedSlots_def)

text \<open>
  Claim C3.  A disabled agent (not enabled, not draining) reports no slots and no empty
  slots; a draining agent reports exactly its used slots and no empty slot; any other agent
  reports the size of its device view, and its empty slots are the total minus the used ones.
\<close>

theorem capacity_by_mode:
  "(\<not> agent_enabled a \<and> \<not> agent_draining a \<longrightarrow> numSlots a = 0 \<and> numEmptySlots a = 0) \<and>
   (agent_draining a \<longrightarrow> numSlots a = numUsedSlots a \<and> numEmptySlots a = 0) \<and>
   (agent_enabled a \<and> \<not> agent_draining a \<longrightarrow>
      numSlots a = int (length (Devices a)) \<and>
      numEmptySlots a = numSlots a - numUsedSlots a)"
  by (simp add: numSlots_def numEmptySlots_def)

theorem capacity_by_mode_witness:
  "(\<not> agent_enabled (disable False two_gpus) \<and> \<not> agent_draining (disable False two_gpus) \<and>
      numSlots (disable False two_gpus) = 0 \<and> numEmptySlots (disable False two_gpus) = 0) \<and>
   (agent_draining (disable True two_gpus) \<and>
      numSlots (disable True two_gpus) = 1 \<and> numEmptySlots (disable True two_gpus) = 0) \<and>
   (agent_enabled two_gpus \<and> \<not> agent_draining two_gpus \<and>
      numSlots two_gpus = 2 \<and> numEmptySlots two_gpus = 1)"
  using capacity_by_mode [of "disable False two_gpus"]
    capacity_by_mode [of "disable True two_gpus"]
    capacity_by_mode [of two_gpus]
  by (simp add: two_gpus_def newAgentState_def disable_def numUsedSlots_def)

subsection \<open>Enable, disable, drain\<close>

lemma apply_toggle_inv:
  "agent_draining (apply_toggle t a) \<longrightarrow> \<not> agent_enabled (apply_toggle t a)"
  by (cases t) (simp_all add: enable_def disable_def)

lemma apply_toggles_inv:
  "(agent_draining a \<longrightarrow> \<not> agent_enabled a) \<Longrightarrow>
   agent_draining (apply_toggles ts a) \<longrightarrow> \<not> agent_enabled (apply_toggles ts a)"
proof (induction ts arbitrary: a)
  case Nil
  then show ?case by simp
next
  case (Cons t ts)
  have "agent_draining (apply_toggle t a) \<longrightarrow> \<not> agent_enabled (apply_toggle t a)"
    by (rule apply_toggle_inv)
  from Cons.IH [OF this] show ?case by simp
qed

text \<open>
  Claim C10.  In every state that a sequence of \<open>enable()\<close> and \<open>disable(drain)\<close> calls
  reaches from a fresh agent state, a draining agent is not enabled.  \<open>enable()\<close> always
  leaves the agent enabled and not draining, so that after it the agent reports its whole
  device view and its configured zero-slot capacity.
\<close>

theorem draining_implies_not_enabled:
  "(agent_draining (apply_toggles ts (newAgentState ident maxZero u)) \<longrightarrow>
      \<not> agent_enabled (apply_toggles ts (newAgentState ident maxZero u))) \<and>
   agent_enabled (enable a) \<and> \<not> agent_draining (enable a) \<and>
   numSlots (enable a) = int (length (Devices a)) \<and>
   numEmptySlots (enable a) = int (length (Devices a)) - numUsedSlots a \<and>
   numZeroSlots (enable a) = maxZeroSlotContainers a"
proof -
  have "agent_draining (newAgentState ident maxZero u) \<longrightarrow>
        \<not> agent_enabled (newAgentState ident maxZero u)"
    by (simp add: newAgentState_def)
  then have "agent_draining (apply_toggles ts (newAgentState ident maxZero u)) \<longrightarrow>
      \<not> agent_enabled (apply_toggles ts (newAgentState ident maxZero u))"
    by (rule apply_toggles_inv)
  moreover have "agent_enabled (enable a) \<and> \<not> agent_draining (enable a)"
    by (simp add: enable_def)
  moreover have "numSlots (enable a) = int (length (Devices a))"
    by (simp add: enable_def numSlots_def)
  moreover have "numEmptySlots (enable a) = int (length (Devices a)) - numUsedSlots a"
    by (simp add: enable_def numEmptySlots_def numSlots_def numUsedSlots_def)
  moreover have "numZeroSlots (enable a) = maxZeroSlotContainers a"
    by (simp add: enable_def numZeroSlots_def)
  ultimately show ?thesis by blast
qed

theorem draining_implies_not_enabled_witness:
  "agent_draining (apply_toggles [Disable False, Enable, Disable True]
      (newAgentState ''agent-1'' 4 ''u-1'')) \<and>
   \<not> agent_enabled (apply_toggles [Disable False, Enable, Disable True]
      (newAgentState ''agent-1'' 4 ''u-1'')) \<and>
   numSlots (enable (disable True two_gpus)) = 2"
  using draining_implies_not_enabled [of "[Disable False, Enable, Disable True]"
      "''agent-1''" 4 "''u-1''" "disable True two_gpus"]
  by (simp add: newAgentState_def enable_def disable_def two_gpus_def)

subsection \<open>Allocation and deallocation\<close>













lemma map_of_map_snd:
  "map_of (map (\<lambda>(d, c). (d, f c)) xs) k = map_option f (map_of xs k)"
  by (induction xs) auto

lemma dealloc_eq:
  "deallocateContainer cid a =
     a\<lparr>containerState := AList.delete cid (containerState a),
       Devices := map (\<lambda>(d, c). (d, clearOccupant cid c)) (Devices a)\<rparr>"
proof -
  have "(\<lambda>(d, c). if c \<noteq> None \<and> the c = cid then (d, None) else (d, c)) =
        (\<lambda>(d :: device, c). (d, clearOccupant cid c))"
    by (auto simp add: clearOccupant_def fun_eq_iff)
  then show ?thesis
    by (simp add: deallocateContainer_def Let_def)
qed

lemma dealloc_devices:
  "Devices (deallocateContainer cid a) = map (\<lambda>(d, c). (d, clearOccupant cid c)) (Devices a)"
  by (simp add: dealloc_eq)

text \<open>
  Claim C8.  \<open>deallocateContainer\<close> removes the record of \<open>cid\<close> and no other record, keeps
  the devices of the view, clears the occupant of exactly the devices that \<open>cid\<close> occupied
  and touches no other field; a second call changes nothing more, and for a container that
  has no record and occupies no device the state is unchanged (the method has no error
  result).
\<close>

theorem deallocateContainer_frees_exactly:
  "map_of (containerState (deallocateContainer cid a)) cid = None \<and>
   (\<forall>c. c \<noteq> cid \<longrightarrow>
      map_of (containerState (deallocateContainer cid a)) c = map_of (containerState a) c) \<and>
   map fst (Devices (deallocateContainer cid a)) = map fst (Devices a) \<and>
   (\<forall>d. map_of (Devices (deallocateContainer cid a)) d =
      (if map_of (Devices a) d = Some (Some cid) then Some None else map_of (Devices a) d)) \<and>
   (deallocateContainer cid a)\<lparr>Devices := Devices a, containerState := containerState a\<rparr> = a \<and>
   deallocateContainer cid (deallocateContainer cid a) = deallocateContainer cid a \<and>
   (cid \<notin> fst ` set (containerState a) \<and> Some cid \<notin> snd ` set (Devices a) \<longrightarrow>
      deallocateContainer cid a = a)"
proof -
  have c1: "map_of (containerState (deallocateContainer cid a)) cid = None"
    by (simp add: deallocateContainer_def Let_def delete_conv')
  have c2: "\<forall>c. c \<noteq> cid \<longrightarrow>
      map_of (containerState (deallocateContainer cid a)) c = map_of (containerState a) c"
    by (simp add: deallocateContainer_def Let_def)
  have c3: "map fst (Devices (deallocateContainer cid a)) = map fst (Devices a)"
    by (simp add: dealloc_devices split_def comp_def)
  have c4: "\<forall>d. map_of (Devices (deallocateContainer cid a)) d =
      (if map_of (Devices a) d = Some (Some cid) then Some None else map_of (Devices a) d)"
    by (auto simp add: dealloc_devices map_of_map_snd clearOccupant_def map_option_case
        split: option.splits)
  have c5: "(deallocateContainer cid a)\<lparr>Devices := Devices a, containerState := containerState a\<rparr> = a"
    by (simp add: deallocateContainer_def Let_def)
  have idem: "map (\<lambda>(d, c). (d, clearOccupant cid c))
       (map (\<lambda>(d, c). (d, clearOccupant cid c)) xs) =
       map (\<lambda>(d, c). (d, clearOccupant cid c)) xs" for xs :: "(device \<times> string option) list"
    by (induction xs) (auto simp add: clearOccupant_def)
  have c6: "deallocateContainer cid (deallocateContainer cid a) = deallocateContainer cid a"
  proof -
    have "Devices (deallocateContainer cid (deallocateContainer cid a)) =
          Devices (deallocateContainer cid a)"
      by (simp only: dealloc_devices idem)
    moreover have "containerState (deallocateContainer cid (deallocateContainer cid a)) =
          containerState (deallocateContainer cid a)"
      by (simp add: deallocateContainer_def Let_def delete_idem)
    ultimately show ?thesis
      by (simp add: deallocateContainer_def Let_def)
  qed
  have noop: "Some cid \<notin> snd ` set xs \<Longrightarrow>
       map (\<lambda>(d, c). (d, clearOccupant cid c)) xs = xs" for xs :: "(device \<times> string option) list"
    by (induction xs) (auto simp add: clearOccupant_def)
  have c7: "cid \<notin> fst ` set (containerState a) \<and> Some cid \<notin> snd ` set (Devices a) \<longrightarrow>
      deallocateContainer cid a = a"
    by (simp add: dealloc_eq noop)
  from c1 c2 c3 c4 c5 c6 c7 show ?thesis by blast
qed


theorem deallocateContainer_frees_exactly_witness:
  "''zz'' \<notin> fst ` set (containerState two_gpus) \<and> Some ''zz'' \<notin> snd ` set (Devices two_gpus) \<and>
   deallocateContainer ''zz'' two_gpus = two_gpus \<and>
   map_of (Devices two_gpus) (gpu 0) = Some (Some ''c1'') \<and>
   map_of (Devices (deallocateContainer ''c1'' two_gpus)) (gpu 0) = Some None \<and>
   map_of (Devices (deallocateContainer ''c1'' two_gpus)) (gpu 1) = Some None"
  using deallocateContainer_frees_exactly [of "''zz''" two_gpus]
    deallocateContainer_frees_exactly [of "''c1''" two_gpus]
  by (simp add: two_gpus_def newAgentState_def gpu_def)

subsection \<open>Starting a container\<close>

lemma inner_Inr:
  assumes "inner msg k a = Inr a1"
  shows "\<exists>s. map_of (slotStates a) k = Some s \<and> enabled (slot_enabled s) \<and> containerID s = None \<and>
     a1 = a\<lparr>slotStates :=
              AList.update k (s\<lparr>containerID := Some (container_ID (start_Container msg))\<rparr>)
                (slotStates a),
            containerState :=
              AList.update (container_ID (start_Container msg)) (start_Container msg)
                (containerState a)\<rparr>"
  using assms by (auto simp add: inner_def split: option.splits if_splits)

lemma startContainer_loop_error:
  "startContainer_loop msg ds a = (Some err, a') \<Longrightarrow>
   \<exists>pre d post e. ds = pre @ d # post \<and>
      err = BadStartContainer (device_ID d) (agent_id a') e \<and>
      startContainer_loop msg pre a = (None, a') \<and>
      inner msg (device_ID d) a' = Inl e"
proof (induction ds arbitrary: a)
  case Nil
  then show ?case by simp
next
  case (Cons x ds)
  show ?case
  proof (cases "inner msg (device_ID x) a")
    case (Inl e)
    with Cons.prems have "err = BadStartContainer (device_ID x) (agent_id a) e" and "a' = a"
      by auto
    with Inl have "x # ds = [] @ x # ds \<and>
      err = BadStartContainer (device_ID x) (agent_id a') e \<and>
      startContainer_loop msg [] a = (None, a') \<and>
      inner msg (device_ID x) a' = Inl e" by simp
    then show ?thesis by blast
  next
    case (Inr a1)
    with Cons.prems have "startContainer_loop msg ds a1 = (Some err, a')" by simp
    from Cons.IH [OF this] obtain pre d post e where
      h: "ds = pre @ d # post" "err = BadStartContainer (device_ID d) (agent_id a') e"
         "startContainer_loop msg pre a1 = (None, a')" "inner msg (device_ID d) a' = Inl e"
      by blast
    from h(1) have "x # ds = (x # pre) @ d # post" by simp
    moreover from h(3) Inr have "startContainer_loop msg (x # pre) a = (None, a')" by simp
    ultimately show ?thesis using h(2) h(4) by blast
  qed
qed

lemma startContainer_loop_prefix:
  "startContainer_loop msg pre a = (None, a') \<Longrightarrow>
   a'\<lparr>slotStates := slotStates a, containerState := containerState a\<rparr> = a \<and>
   map fst (slotStates a') = map fst (slotStates a) \<and>
   (\<forall>k. k \<notin> device_ID ` set pre \<longrightarrow> map_of (slotStates a') k = map_of (slotStates a) k) \<and>
   (\<forall>k \<in> device_ID ` set pre. \<exists>s. map_of (slotStates a) k = Some s \<and> containerID s = None \<and>
       enabled (slot_enabled s) \<and>
       map_of (slotStates a') k = Some (claimed (container_ID (start_Container msg)) s)) \<and>
   (pre = [] \<longrightarrow> a' = a) \<and>
   (pre \<noteq> [] \<longrightarrow> map_of (containerState a') =
       (map_of (containerState a))(container_ID (start_Container msg) \<mapsto> start_Container msg))"
proof (induction pre arbitrary: a)
  case Nil
  then show ?case by simp
next
  case (Cons x pre)
  let ?cid = "container_ID (start_Container msg)"
  from Cons.prems obtain a1 where in1: "inner msg (device_ID x) a = Inr a1"
    and rest: "startContainer_loop msg pre a1 = (None, a')"
    by (cases "inner msg (device_ID x) a") simp_all
  from inner_Inr [OF in1] obtain s where
    s: "map_of (slotStates a) (device_ID x) = Some s" "enabled (slot_enabled s)" "containerID s = None"
    and a1: "a1 = a\<lparr>slotStates := AList.update (device_ID x) (s\<lparr>containerID := Some ?cid\<rparr>) (slotStates a),
            containerState := AList.update ?cid (start_Container msg) (containerState a)\<rparr>"
    by blast
  note IH = Cons.IH [OF rest]
  have key_in: "device_ID x \<in> fst ` set (slotStates a)"
    using s(1) by (metis map_of_eq_None_iff option.distinct(1))
  have keys1: "map fst (slotStates a1) = map fst (slotStates a)"
    using key_in by (simp add: a1 update_keys)
  have sl1: "map_of (slotStates a1) = (map_of (slotStates a))(device_ID x \<mapsto> claimed ?cid s)"
    by (simp add: a1 update_conv' claimed_def)
  have notin: "device_ID x \<notin> device_ID ` set pre"
  proof
    assume "device_ID x \<in> device_ID ` set pre"
    with IH obtain s' where "map_of (slotStates a1) (device_ID x) = Some s'" "containerID s' = None"
      by blast
    then show False by (auto simp add: sl1 claimed_def)
  qed
  have p1: "a'\<lparr>slotStates := slotStates a, containerState := containerState a\<rparr> = a"
  proof -
    from IH have "a'\<lparr>slotStates := slotStates a1, containerState := containerState a1\<rparr> = a1" by blast
    then have "(a'\<lparr>slotStates := slotStates a1, containerState := containerState a1\<rparr>)
        \<lparr>slotStates := slotStates a, containerState := containerState a\<rparr> =
        a1\<lparr>slotStates := slotStates a, containerState := containerState a\<rparr>" by simp
    then show ?thesis by (simp add: a1)
  qed
  have p2: "map fst (slotStates a') = map fst (slotStates a)"
    using IH keys1 by simp
  have p3: "\<forall>k. k \<notin> device_ID ` set (x # pre) \<longrightarrow> map_of (slotStates a') k = map_of (slotStates a) k"
    using IH sl1 by simp
  have p4: "\<forall>k \<in> device_ID ` set (x # pre). \<exists>s. map_of (slotStates a) k = Some s \<and> containerID s = None \<and>
       enabled (slot_enabled s) \<and> map_of (slotStates a') k = Some (claimed ?cid s)"
  proof
    fix k assume k: "k \<in> device_ID ` set (x # pre)"
    show "\<exists>s. map_of (slotStates a) k = Some s \<and> containerID s = None \<and>
       enabled (slot_enabled s) \<and> map_of (slotStates a') k = Some (claimed ?cid s)"
    proof (cases "k = device_ID x")
      case True
      with notin IH have "map_of (slotStates a') k = map_of (slotStates a1) k" by blast
      with True s sl1 show ?thesis by simp
    next
      case False
      with k have "k \<in> device_ID ` set pre" by auto
      with IH obtain s' where "map_of (slotStates a1) k = Some s'" "containerID s' = None"
        "enabled (slot_enabled s')" "map_of (slotStates a') k = Some (claimed ?cid s')" by blast
      with False sl1 show ?thesis by simp
    qed
  qed
  have p6: "map_of (containerState a') = (map_of (containerState a))(?cid \<mapsto> start_Container msg)"
  proof (cases "pre = []")
    case True
    with IH have "a' = a1" by blast
    then show ?thesis by (simp add: a1 update_conv')
  next
    case False
    with IH have "map_of (containerState a') = (map_of (containerState a1))(?cid \<mapsto> start_Container msg)"
      by blast
    then show ?thesis by (simp add: a1 update_conv')
  qed
  from p1 p2 p3 p4 p6 show ?case by blast
qed

lemma started_two_eq:
  "started_two =
     \<lparr>agent_id = ''agent-1'', Devices = [(gpu 0, None), (gpu 1, None)],
      resourcePoolName = [], agent_enabled = True, agent_draining = False,
      agent_uuid = ''u-1'', maxZeroSlotContainers = 4,
      slotStates =
        [(0, \<lparr>device = gpu 0,
              slot_enabled = \<lparr>deviceAdded = True, agentEnabled = True,
                               userEnabled = True, draining = False\<rparr>,
              containerID = None\<rparr>),
         (1, \<lparr>device = gpu 1,
              slot_enabled = \<lparr>deviceAdded = True, agentEnabled = True,
                               userEnabled = True, draining = False\<rparr>,
              containerID = None\<rparr>)],
      containerAllocation = [], containerState = []\<rparr>"
  by (simp add: started_two_def agentStarted_def newAgentState_def updateSlotDeviceView_def
      enabled_def addDevice_def gpu_def Let_def)

text \<open>
  Claim C2 as stated (an error of \<open>startContainer\<close> leaves the state unchanged) fails.  The
  agent has the devices 0 and 1; the container asks for device 0 and for a device 7 that has
  no slot.  The loop claims the slot of device 0 and installs the container record, then
  fails on device 7 and returns the error: the slot and the record stay written.
\<close>

theorem startContainer_partial_counterexample:
  "fst (startContainer start_c2 started_two) =
     Some (BadStartContainer 7 ''agent-1'' CantFindSlot) \<and>
   map_of (slotStates started_two) 0 =
     Some \<lparr>device = gpu 0,
           slot_enabled = \<lparr>deviceAdded = True, agentEnabled = True,
                            userEnabled = True, draining = False\<rparr>,
           containerID = None\<rparr> \<and>
   map_of (slotStates (snd (startContainer start_c2 started_two))) 0 =
     Some \<lparr>device = gpu 0,
           slot_enabled = \<lparr>deviceAdded = True, agentEnabled = True,
                            userEnabled = True, draining = False\<rparr>,
           containerID = Some ''c2''\<rparr> \<and>
   map_of (containerState started_two) ''c2'' = None \<and>
   map_of (containerState (snd (startContainer start_c2 started_two))) ''c2'' =
     Some (start_Container start_c2) \<and>
   snd (startContainer start_c2 started_two) \<noteq> started_two"
  by (simp add: started_two_eq start_c2_def startContainer_def inner_def enabled_def gpu_def)

text \<open>
  Claim C2, amended.  When \<open>startContainer\<close> returns an error, the requested devices split
  into those before the first offending device \<open>d\<close>, \<open>d\<close> itself and the rest; the error is
  the one of \<open>d\<close>, wrapped with its ID.  The state left behind is the one the loop had
  reached before \<open>d\<close>: the device view, the container-to-allocation map and every field
  other than the slots and the container records are unchanged; the slots have the same
  keys; a slot of a device not listed before \<open>d\<close> is unchanged; a slot of a device listed
  before \<open>d\<close> was enabled and free and is now occupied by the container; the container
  record is installed if at least one device precedes \<open>d\<close>.  If \<open>d\<close> is the first
  requested device the state is unchanged.
\<close>

theorem startContainer_error_frame:
  assumes "fst (startContainer msg a) = Some err"
  shows "\<exists>pre d post e.
     container_Devices (start_Container msg) = pre @ d # post \<and>
     err = BadStartContainer (device_ID d) (agent_id a) e \<and>
     inner msg (device_ID d) (snd (startContainer msg a)) = Inl e \<and>
     startContainer_loop msg pre a = (None, snd (startContainer msg a)) \<and>
     (pre = [] \<longrightarrow> snd (startContainer msg a) = a) \<and>
     Devices (snd (startContainer msg a)) = Devices a \<and>
     containerAllocation (snd (startContainer msg a)) = containerAllocation a \<and>
     (snd (startContainer msg a))\<lparr>slotStates := slotStates a, containerState := containerState a\<rparr> = a \<and>
     map fst (slotStates (snd (startContainer msg a))) = map fst (slotStates a) \<and>
     (\<forall>k. k \<notin> device_ID ` set pre \<longrightarrow>
        map_of (slotStates (snd (startContainer msg a))) k = map_of (slotStates a) k) \<and>
     (\<forall>k \<in> device_ID ` set pre. \<exists>s. map_of (slotStates a) k = Some s \<and> containerID s = None \<and>
        enabled (slot_enabled s) \<and>
        map_of (slotStates (snd (startContainer msg a))) k =
          Some (claimed (container_ID (start_Container msg)) s)) \<and>
     (pre \<noteq> [] \<longrightarrow> map_of (containerState (snd (startContainer msg a))) =
        (map_of (containerState a))(container_ID (start_Container msg) \<mapsto> start_Container msg))"
proof -
  let ?a' = "snd (startContainer msg a)"
  obtain r a1 where loop: "startContainer_loop msg (container_Devices (start_Container msg)) a = (r, a1)"
    by (cases "startContainer_loop msg (container_Devices (start_Container msg)) a")
  with assms have r: "r = Some err" and a1: "?a' = a1"
    by (cases r; simp add: startContainer_def)+
  from startContainer_loop_error [OF loop [unfolded r]] obtain pre d post e where
    h: "container_Devices (start_Container msg) = pre @ d # post"
       "err = BadStartContainer (device_ID d) (agent_id a1) e"
       "startContainer_loop msg pre a = (None, a1)"
       "inner msg (device_ID d) a1 = Inl e"
    by blast
  note fr = startContainer_loop_prefix [OF h(3)]
  from fr have "a1\<lparr>slotStates := slotStates a, containerState := containerState a\<rparr> = a" by blast
  then have "agent_id (a1\<lparr>slotStates := slotStates a, containerState := containerState a\<rparr>) = agent_id a"
    and "Devices (a1\<lparr>slotStates := slotStates a, containerState := containerState a\<rparr>) = Devices a"
    and "containerAllocation (a1\<lparr>slotStates := slotStates a, containerState := containerState a\<rparr>) =
         containerAllocation a"
    by simp_all
  then have same: "agent_id a1 = agent_id a" "Devices a1 = Devices a"
    "containerAllocation a1 = containerAllocation a" by simp_all
  show ?thesis
    apply (rule exI [of _ pre], rule exI [of _ d], rule exI [of _ post], rule exI [of _ e])
    unfolding a1 using h fr same by simp
qed

theorem startContainer_error_frame_witness:
  "fst (startContainer start_c2 started_two) =
     Some (BadStartContainer 7 ''agent-1'' CantFindSlot) \<and>
   (\<exists>pre d post. container_Devices (start_Container start_c2) = pre @ d # post \<and>
      device_ID d = 7 \<and>
      Devices (snd (startContainer start_c2 started_two)) = Devices started_two \<and>
      containerAllocation (snd (startContainer start_c2 started_two)) =
        containerAllocation started_two \<and>
      (\<forall>k. k \<notin> device_ID ` set pre \<longrightarrow>
        map_of (slotStates (snd (startContainer start_c2 started_two))) k =
        map_of (slotStates started_two) k))"
proof -
  have h: "fst (startContainer start_c2 started_two) =
     Some (BadStartContainer 7 ''agent-1'' CantFindSlot)"
    by (simp add: started_two_eq start_c2_def startContainer_def inner_def enabled_def gpu_def)
  from startContainer_error_frame [OF h] obtain pre d post e where
    p: "container_Devices (start_Container start_c2) = pre @ d # post"
       "BadStartContainer 7 ''agent-1'' CantFindSlot =
          BadStartContainer (device_ID d) (agent_id started_two) e"
       "Devices (snd (startContainer start_c2 started_two)) = Devices started_two"
       "containerAllocation (snd (startContainer start_c2 started_two)) =
          containerAllocation started_two"
       "\<forall>k. k \<notin> device_ID ` set pre \<longrightarrow>
          map_of (slotStates (snd (startContainer start_c2 started_two))) k =
          map_of (slotStates started_two) k"
    by blast
  from p(2) have "device_ID d = 7" by simp
  with h p(1,3,4,5) show ?thesis by blast
qed

subsection \<open>Disabling and draining a slot\<close>

lemma set_update_subset: "set (AList.update k v al) \<subseteq> insert (k, v) (set al)"
  by (induction al) auto

lemma set_delete_subset: "set (AList.delete k al) \<subseteq> set al"
  by (induction al) auto

lemma slots_keyed_update:
  "slots_keyed a \<Longrightarrow> device_ID (device s) = k \<Longrightarrow>
   slots_keyed (a\<lparr>slotStates := AList.update k s (slotStates a)\<rparr>)"
  using set_update_subset [of k s "slotStates a"]
  by (auto simp add: slots_keyed_def)

lemma slots_keyed_lookup:
  "slots_keyed a \<Longrightarrow> map_of (slotStates a) k = Some s \<Longrightarrow> device_ID (device s) = k"
  by (auto simp add: slots_keyed_def dest: map_of_SomeD)

lemma updateSlotDeviceView_keyed:
  assumes "slots_keyed a"
  shows "slots_keyed (fst (updateSlotDeviceView k a))"
proof (cases "map_of (slotStates a) k")
  case None
  with assms show ?thesis by (simp add: updateSlotDeviceView_def)
next
  case (Some s)
  from slots_keyed_lookup [OF assms Some] have k: "device_ID (device s) = k" .
  have upd: "slots_keyed (a\<lparr>slotStates := AList.update k (s\<lparr>slot_enabled := e\<rparr>) (slotStates a)\<rparr>)" for e
    using slots_keyed_update [OF assms, of "s\<lparr>slot_enabled := e\<rparr>" k] k by simp
  have dev: "slots_keyed (b\<lparr>Devices := ds\<rparr>) = slots_keyed b" for b ds
    by (simp add: slots_keyed_def)
  show ?thesis
    using Some assms upd
    by (simp add: updateSlotDeviceView_def Let_def addDevice_def removeDevice_def dev)
qed

lemma agentStarted_loop_keyed:
  "slots_keyed a \<Longrightarrow> slots_keyed (fst (agentStarted_loop ds a))"
proof (induction ds arbitrary: a)
  case Nil
  then show ?case by simp
next
  case (Cons d ds)
  let ?s = "\<lparr>device = d,
            slot_enabled = \<lparr>deviceAdded = False, agentEnabled = True, userEnabled = True,
                             draining = False\<rparr>,
            containerID = None\<rparr>"
  let ?a1 = "a\<lparr>slotStates := AList.update (device_ID d) ?s (slotStates a)\<rparr>"
  have "slots_keyed ?a1"
    using slots_keyed_update [OF Cons.prems, of ?s "device_ID d"] by simp
  then have "slots_keyed (fst (updateSlotDeviceView (device_ID d) ?a1))"
    by (rule updateSlotDeviceView_keyed)
  from Cons.IH [OF this] show ?case
    by (simp add: Let_def split_def)
qed

lemma agentStarted_keyed:
  "slots_keyed (fst (agentStarted msg (newAgentState ident maxZero u)))"
  unfolding agentStarted_def
  by (rule agentStarted_loop_keyed) (simp add: slots_keyed_def newAgentState_def)

lemma patch_events:
  assumes s: "map_of (slotStates a) k = Some s" and key: "device_ID (device s) = k"
    and occ: "containerID s = Some c" and en: "patch_enabled msg = Some False"
  shows "snd (snd (patchSlotStateInner msg k a)) =
     (if (case patch_drain msg of None \<Rightarrow> draining (slot_enabled s) | Some b \<Rightarrow> b) then []
      else [\<lparr>topic = allocationOf a c, Reason = ''slot disabled'', ForceKill = True\<rparr>])"
  using assms
  by (auto simp add: patchSlotStateInner_def updateSlotDeviceView_def Let_def enabled_def
      update_conv' removeDevice_def allocationOf_def split: option.splits)

lemma patch_drain_state:
  assumes s: "map_of (slotStates a) k = Some s" and key: "device_ID (device s) = k"
    and en: "patch_enabled msg = Some False" and dr: "patch_drain msg = Some True"
  shows "fst (snd (patchSlotStateInner msg k a)) =
     a\<lparr>slotStates :=
         AList.update k (s\<lparr>slot_enabled := (slot_enabled s)\<lparr>userEnabled := False, draining := True\<rparr>\<rparr>)
           (slotStates a)\<rparr>"
  using assms
  by (simp add: patchSlotStateInner_def updateSlotDeviceView_def Let_def enabled_def
      update_conv')

text \<open>
  What a patch that sets \<open>userEnabled\<close> to false does to a slot with an occupant \<open>c\<close>,
  stored under the ID of its device.  With \<open>drain\<close> false the patch publishes exactly one
  event: a release with reason "slot disabled" and \<open>ForceKill\<close> true, addressed to what
  \<open>containerAllocation\<close> gives for \<open>c\<close>: the allocation recorded for \<open>c\<close> when there is
  an entry, the empty allocation ID when there is none.  With \<open>drain\<close> true it publishes
  nothing, the device view is unchanged and the slot keeps its occupant: only the two flags
  of the slot are written.  \<open>patchSlotState\<close> with the ID of the slot does the same.
\<close>

lemma patch_disable_occupied_slot:
  assumes "map_of (slotStates a) k = Some s" and "device_ID (device s) = k"
    and "containerID s = Some c" and "patch_enabled msg = Some False"
  shows
   "(patch_drain msg = Some False \<longrightarrow>
       snd (snd (patchSlotStateInner msg k a)) =
         [\<lparr>topic = allocationOf a c, Reason = ''slot disabled'', ForceKill = True\<rparr>] \<and>
       (\<forall>al. map_of (containerAllocation a) c = Some al \<longrightarrow> allocationOf a c = al)) \<and>
    (patch_drain msg = Some True \<longrightarrow>
       snd (snd (patchSlotStateInner msg k a)) = [] \<and>
       Devices (fst (snd (patchSlotStateInner msg k a))) = Devices a \<and>
       map_of (slotStates (fst (snd (patchSlotStateInner msg k a)))) k =
         Some (s\<lparr>slot_enabled := (slot_enabled s)\<lparr>userEnabled := False, draining := True\<rparr>\<rparr>) \<and>
       (\<forall>s'. map_of (slotStates (fst (snd (patchSlotStateInner msg k a)))) k = Some s' \<longrightarrow>
          containerID s' = Some c \<and> device s' = device s) \<and>
       (\<forall>j. j \<noteq> k \<longrightarrow> map_of (slotStates (fst (snd (patchSlotStateInner msg k a)))) j =
          map_of (slotStates a) j)) \<and>
    (patch_id msg = k \<longrightarrow> patchSlotState msg a = patchSlotStateInner msg k a)"
proof -
  have ev: "snd (snd (patchSlotStateInner msg k a)) =
     (if (case patch_drain msg of None \<Rightarrow> draining (slot_enabled s) | Some b \<Rightarrow> b) then []
      else [\<lparr>topic = allocationOf a c, Reason = ''slot disabled'', ForceKill = True\<rparr>])"
    by (rule patch_events [OF assms])
  have al: "\<forall>al. map_of (containerAllocation a) c = Some al \<longrightarrow> allocationOf a c = al"
    by (simp add: allocationOf_def)
  have st: "patch_drain msg = Some True \<Longrightarrow> fst (snd (patchSlotStateInner msg k a)) =
     a\<lparr>slotStates :=
         AList.update k (s\<lparr>slot_enabled := (slot_enabled s)\<lparr>userEnabled := False, draining := True\<rparr>\<rparr>)
           (slotStates a)\<rparr>"
    by (rule patch_drain_state [OF assms(1,2,4)])
  have pub: "patch_id msg = k \<longrightarrow> patchSlotState msg a = patchSlotStateInner msg k a"
    using assms(1) by (simp add: patchSlotState_def)
  show ?thesis
    using ev al st pub assms(3) by (simp add: update_conv')
qed

lemma running_c2_eq:
  "running_c2 =
     \<lparr>agent_id = ''agent-1'', Devices = [(gpu 0, None), (gpu 1, None)],
      resourcePoolName = [], agent_enabled = True, agent_draining = False,
      agent_uuid = ''u-1'', maxZeroSlotContainers = 4,
      slotStates =
        [(0, \<lparr>device = gpu 0,
              slot_enabled = \<lparr>deviceAdded = True, agentEnabled = True,
                               userEnabled = True, draining = False\<rparr>,
              containerID = Some ''c2''\<rparr>),
         (1, \<lparr>device = gpu 1,
              slot_enabled = \<lparr>deviceAdded = True, agentEnabled = True,
                               userEnabled = True, draining = False\<rparr>,
              containerID = None\<rparr>)],
      containerAllocation = [(''c2'', ''alloc-2'')],
      containerState = [(''c2'', start_Container start_c2_on_0)]\<rparr>"
  by (simp add: running_c2_def started_two_eq start_c2_on_0_def startContainer_def inner_def
      enabled_def gpu_def)

lemma patch_disable_occupied_slot_example:
  "map_of (slotStates running_c2) 0 =
     Some \<lparr>device = gpu 0,
           slot_enabled = \<lparr>deviceAdded = True, agentEnabled = True,
                            userEnabled = True, draining = False\<rparr>,
           containerID = Some ''c2''\<rparr> \<and>
   device_ID (gpu 0) = 0 \<and>
   patch_enabled disable_slot_0 = Some False \<and> patch_drain disable_slot_0 = Some False \<and>
   patch_enabled drain_slot_0 = Some False \<and> patch_drain drain_slot_0 = Some True \<and>
   snd (snd (patchSlotStateInner disable_slot_0 0 running_c2)) =
     [\<lparr>topic = ''alloc-2'', Reason = ''slot disabled'', ForceKill = True\<rparr>] \<and>
   snd (snd (patchSlotStateInner drain_slot_0 0 running_c2)) = [] \<and>
   Devices (fst (snd (patchSlotStateInner drain_slot_0 0 running_c2))) = Devices running_c2"
proof -
  let ?s = "\<lparr>device = gpu 0,
           slot_enabled = \<lparr>deviceAdded = True, agentEnabled = True,
                            userEnabled = True, draining = False\<rparr>,
           containerID = Some ''c2''\<rparr>"
  have h1: "map_of (slotStates running_c2) 0 = Some ?s" by (simp add: running_c2_eq)
  have h2: "device_ID (device ?s) = 0" by (simp add: gpu_def)
  have h3: "containerID ?s = Some ''c2''" by simp
  have h4: "patch_enabled disable_slot_0 = Some False" "patch_enabled drain_slot_0 = Some False"
    by (simp_all add: disable_slot_0_def drain_slot_0_def)
  have h5: "patch_drain disable_slot_0 = Some False" "patch_drain drain_slot_0 = Some True"
    by (simp_all add: disable_slot_0_def drain_slot_0_def)
  have al: "allocationOf running_c2 ''c2'' = ''alloc-2''"
    by (simp add: allocationOf_def running_c2_eq)
  have g: "device_ID (gpu 0) = 0" by (simp add: gpu_def)
  from patch_disable_occupied_slot [OF h1 h2 h3 h4(1)] h5(1)
  have "snd (snd (patchSlotStateInner disable_slot_0 0 running_c2)) =
     [\<lparr>topic = allocationOf running_c2 ''c2'', Reason = ''slot disabled'', ForceKill = True\<rparr>]"
    by blast
  then have e1: "snd (snd (patchSlotStateInner disable_slot_0 0 running_c2)) =
     [\<lparr>topic = ''alloc-2'', Reason = ''slot disabled'', ForceKill = True\<rparr>]"
    by (simp only: al)
  from patch_disable_occupied_slot [OF h1 h2 h3 h4(2)] h5(2)
  have e2: "snd (snd (patchSlotStateInner drain_slot_0 0 running_c2)) = [] \<and>
    Devices (fst (snd (patchSlotStateInner drain_slot_0 0 running_c2))) = Devices running_c2"
    by blast
  from h1 g h4 h5 e1 e2 show ?thesis by blast
qed

text \<open>
  Claim C4 (disabling a slot whose occupant is non-null, without drain, emits exactly one
  force-release event for the allocation that owns the occupant) is what the source
  intends: the comment on the publication says that the container is killed whether the
  device is in the view or not.  The code misses the case of an occupant without entry in
  \<open>containerAllocation\<close>.  After a restart the recovered aggregate has the container
  \<open>c2\<close> on the slot of device 0 and an empty container-to-allocation map (before the
  restart the map gave \<open>alloc-2\<close> for \<open>c2\<close>); disabling the slot then publishes the one
  event to the empty allocation ID, and the allocation that owns \<open>c2\<close> is not released.
\<close>

theorem disable_recovered_slot_releases_no_allocation:
  "map_of (containerAllocation running_c2) ''c2'' = Some ''alloc-2'' \<and>
   newAgentStateFromSnapshot Some store_c2 (snapshot running_c2) = Inr recovered_c2 \<and>
   map_option containerID (map_of (slotStates recovered_c2) 0) = Some (Some ''c2'') \<and>
   map_of (containerAllocation recovered_c2) ''c2'' = None \<and>
   snd (snd (patchSlotState disable_slot_0 recovered_c2)) =
     [\<lparr>topic = [], Reason = ''slot disabled'', ForceKill = True\<rparr>]"
proof -
  have a: "map_of (containerAllocation running_c2) ''c2'' = Some ''alloc-2''"
    by (simp add: running_c2_eq)
  have r: "newAgentStateFromSnapshot Some store_c2 (snapshot running_c2) = Inr recovered_c2"
    by (simp add: running_c2_eq newAgentStateFromSnapshot_def snapshot_def store_c2_def
        start_c2_on_0_def recovered_c2_def gpu_def)
  have o: "map_option containerID (map_of (slotStates recovered_c2) 0) = Some (Some ''c2'')"
    by (simp add: recovered_c2_def)
  have n: "map_of (containerAllocation recovered_c2) ''c2'' = None"
    by (simp add: recovered_c2_def)
  have e: "snd (snd (patchSlotState disable_slot_0 recovered_c2)) =
     [\<lparr>topic = [], Reason = ''slot disabled'', ForceKill = True\<rparr>]"
    by (simp add: recovered_c2_def disable_slot_0_def patchSlotState_def
        patchSlotStateInner_def updateSlotDeviceView_def enabled_def removeDevice_def
        allocationOf_def Let_def gpu_def)
  from a r o n e show ?thesis by (intro conjI)
qed

subsection \<open>Device inventory of a reconnecting agent\<close>

lemma foldl_update_conv:
  "map_of (foldl (\<lambda>m x. AList.update (kf x) (vf x) m) m0 xs) =
   map_of m0 ++ map_of (rev (map (\<lambda>x. (kf x, vf x)) xs))"
proof (induction xs arbitrary: m0)
  case Nil
  then show ?case by simp
next
  case (Cons x xs)
  have "map_of (AList.update (kf x) (vf x) m0) ++ map_of (rev (map (\<lambda>x. (kf x, vf x)) xs)) =
        map_of m0 ++ (map_of [(kf x, vf x)] ++ map_of (rev (map (\<lambda>x. (kf x, vf x)) xs)))"
    by (simp add: update_conv' map_add_upd_left fun_eq_iff map_add_def split: option.splits)
  with Cons.IH [of "AList.update (kf x) (vf x) m0"] show ?case by simp
qed

lemma foldl_update_distinct:
  "distinct (map fst m0) \<Longrightarrow>
   distinct (map fst (foldl (\<lambda>m x. AList.update (kf x) (vf x) m) m0 xs))"
  by (induction xs arbitrary: m0) (simp_all add: distinct_update)

lemma foldl_update_length:
  "distinct (map kf xs) \<Longrightarrow> set (map kf xs) \<inter> fst ` set m0 = {} \<Longrightarrow>
   length (foldl (\<lambda>m x. AList.update (kf x) (vf x) m) m0 xs) = length m0 + length xs"
proof (induction xs arbitrary: m0)
  case Nil
  then show ?case by simp
next
  case (Cons x xs)
  from Cons.prems have notin: "kf x \<notin> fst ` set m0" by auto
  then have len: "length (AList.update (kf x) (vf x) m0) = Suc (length m0)"
    by (induction m0) auto
  have "set (map kf xs) \<inter> fst ` set (AList.update (kf x) (vf x) m0) = {}"
    using Cons.prems by (auto simp add: dom_update)
  with Cons.IH [of "AList.update (kf x) (vf x) m0"] Cons.prems len show ?case by simp
qed

lemma ourDevices_alt:
  "ourDevices a = foldl (\<lambda>m x. AList.update (fst x) (device (snd x)) m) [] (slotStates a)"
  by (simp add: ourDevices_def split_def)

lemma map_of_ourDevices:
  "map_of (ourDevices a) = map_of (rev (map (\<lambda>x. (fst x, device (snd x))) (slotStates a)))"
  by (simp add: ourDevices_alt foldl_update_conv)

lemma map_of_theirDevices:
  "map_of (theirDevices msg) = map_of (rev (map (\<lambda>d. (device_ID d, d)) (started_Devices msg)))"
  by (simp add: theirDevices_def foldl_update_conv)

lemma distinct_ourDevices: "distinct (map fst (ourDevices a))"
  by (simp add: ourDevices_alt foldl_update_distinct)

lemma distinct_theirDevices: "distinct (map fst (theirDevices msg))"
  by (simp add: theirDevices_def foldl_update_distinct)

lemma maps_Equal_iff:
  assumes "distinct (map fst m1)" and "distinct (map fst m2)"
  shows "(length m1 = length m2 \<and> maps_Equal m1 m2) \<longleftrightarrow> map_of m1 = map_of m2"
proof
  assume eq: "map_of m1 = map_of m2"
  then have "dom (map_of m1) = dom (map_of m2)" by simp
  then have "set (map fst m1) = set (map fst m2)" by (simp add: dom_map_of_conv_image_fst)
  with assms have len: "length m1 = length m2"
    by (metis distinct_card length_map)
  have "list_all (\<lambda>(k, v1). case map_of m2 k of None \<Rightarrow> False | Some v2 \<Rightarrow> v1 = v2) m1"
    unfolding list_all_iff
  proof
    fix x assume "x \<in> set m1"
    then have "map_of m1 (fst x) = Some (snd x)"
      using assms(1) by (metis map_of_is_SomeI prod.collapse)
    with eq show "case x of (k, v1) \<Rightarrow> (case map_of m2 k of None \<Rightarrow> False | Some v2 \<Rightarrow> v1 = v2)"
      by (cases x) simp
  qed
  with len show "length m1 = length m2 \<and> maps_Equal m1 m2" by (simp add: maps_Equal_def)
next
  assume h: "length m1 = length m2 \<and> maps_Equal m1 m2"
  then have sub: "\<And>k v. (k, v) \<in> set m1 \<Longrightarrow> map_of m2 k = Some v"
    by (auto simp add: maps_Equal_def list_all_iff split: option.splits)
  have "set (map fst m1) \<subseteq> set (map fst m2)"
  proof
    fix k assume "k \<in> set (map fst m1)"
    then obtain v where "(k, v) \<in> set m1" by auto
    from sub [OF this] show "k \<in> set (map fst m2)"
      by (metis map_of_eq_None_iff option.distinct(1) set_map)
  qed
  moreover have "card (set (map fst m1)) = card (set (map fst m2))"
    using distinct_card [OF assms(1)] distinct_card [OF assms(2)] h by simp
  ultimately have keys: "set (map fst m1) = set (map fst m2)"
    by (simp add: card_subset_eq)
  show "map_of m1 = map_of m2"
  proof
    fix k
    show "map_of m1 k = map_of m2 k"
    proof (cases "map_of m1 k")
      case None
      then have "k \<notin> set (map fst m1)" by (simp add: map_of_eq_None_iff)
      with keys have "k \<notin> set (map fst m2)" by simp
      then have "map_of m2 k = None" by (simp add: map_of_eq_None_iff)
      with None show ?thesis by simp
    next
      case (Some v)
      then have "(k, v) \<in> set m1" by (rule map_of_SomeD)
      from sub [OF this] Some show ?thesis by simp
    qed
  qed
qed

lemma check_iff_maps:
  "checkAgentStartedDevicesMatch msg a \<noteq> None \<longleftrightarrow>
   map_of (ourDevices a) \<noteq> map_of (theirDevices msg)"
  using maps_Equal_iff [OF distinct_ourDevices distinct_theirDevices, of a msg]
  by (auto simp add: checkAgentStartedDevicesMatch_def)

lemma map_of_rev_distinct:
  "distinct (map fst xs) \<Longrightarrow> map_of (rev xs) = map_of xs"
  by (rule map_of_inject_set [THEN iffD2]) (simp_all add: rev_map [symmetric])

lemma graph_eq_iff:
  assumes "distinct (map fst xs)" and "distinct (map fst ys)"
  shows "map_of xs = map_of ys \<longleftrightarrow> set xs = set ys"
  using assms by (rule map_of_inject_set)

text \<open>
  Claim C9 as stated fails on a report that lists a device ID twice: the agent knows the
  devices 0 and 1; the report lists device 0 with another brand, then the devices 0 and 1
  as known.  The later entry replaces the earlier one in the map built from the report, the
  two maps are equal and no error is returned, although the reported devices are not the
  known ones.
\<close>

theorem checkAgentStartedDevicesMatch_counterexample:
  "checkAgentStartedDevicesMatch report_twice started_two = None \<and>
   (gpu 0)\<lparr>Brand := ''amd''\<rparr> \<in> set (started_Devices report_twice) \<and>
   (gpu 0)\<lparr>Brand := ''amd''\<rparr> \<notin> device ` snd ` set (slotStates started_two) \<and>
   set (started_Devices report_twice) \<noteq> device ` snd ` set (slotStates started_two)"
proof -
  have c: "checkAgentStartedDevicesMatch report_twice started_two = None"
    by (simp add: checkAgentStartedDevicesMatch_def ourDevices_def theirDevices_def
        started_two_eq report_twice_def maps_Equal_def gpu_def)
  have i: "(gpu 0)\<lparr>Brand := ''amd''\<rparr> \<in> set (started_Devices report_twice)"
    by (simp add: report_twice_def)
  have n: "(gpu 0)\<lparr>Brand := ''amd''\<rparr> \<notin> device ` snd ` set (slotStates started_two)"
    by (simp add: started_two_eq gpu_def)
  from i n have "set (started_Devices report_twice) \<noteq> device ` snd ` set (slotStates started_two)"
    by blast
  with c i n show ?thesis by blast
qed

text \<open>
  Claim C9, amended.  For an aggregate whose slots are stored one per key, each under the
  ID of its own device, and a report in which no two entries have the same device ID:
  \<open>checkAgentStartedDevicesMatch\<close> returns an error if and only if the reported devices are
  not exactly the devices of the slots; when the numbers of devices differ the error is the
  one about the device count.  The method only reads the aggregate.
\<close>

theorem checkAgentStartedDevicesMatch_iff:
  assumes "distinct (map fst (slotStates a))" and "slots_keyed a"
    and "distinct (map device_ID (started_Devices msg))"
  shows "(checkAgentStartedDevicesMatch msg a \<noteq> None \<longleftrightarrow>
            set (started_Devices msg) \<noteq> device ` snd ` set (slotStates a)) \<and>
         (length (started_Devices msg) \<noteq> length (slotStates a) \<longrightarrow>
            checkAgentStartedDevicesMatch msg a =
              Some (DeviceCountChanged (int (length (slotStates a)))
                      (int (length (started_Devices msg)))))"
proof -
  let ?ours = "map (\<lambda>x. (fst x, device (snd x))) (slotStates a)"
  let ?theirs = "map (\<lambda>d. (device_ID d, d)) (started_Devices msg)"
  have do: "distinct (map fst ?ours)" using assms(1) by (simp add: comp_def)
  have dt: "distinct (map fst ?theirs)" using assms(3) by (simp add: comp_def)
  have mo: "map_of (ourDevices a) = map_of ?ours"
    using map_of_rev_distinct [OF do] by (simp add: map_of_ourDevices rev_map)
  have mt: "map_of (theirDevices msg) = map_of ?theirs"
    using map_of_rev_distinct [OF dt] by (simp add: map_of_theirDevices rev_map)
  have keyed: "?ours = map (\<lambda>x. (device_ID (device (snd x)), device (snd x))) (slotStates a)"
    using assms(2) by (auto simp add: slots_keyed_def)
  have inj: "inj (\<lambda>d. (device_ID d, d))" by (simp add: inj_on_def)
  have "map_of (ourDevices a) = map_of (theirDevices msg) \<longleftrightarrow> set ?ours = set ?theirs"
    unfolding mo mt by (rule graph_eq_iff [OF do dt])
  also have "set ?ours = (\<lambda>d. (device_ID d, d)) ` (device ` snd ` set (slotStates a))"
    by (subst keyed) (simp add: image_image)
  also have "set ?theirs = (\<lambda>d. (device_ID d, d)) ` set (started_Devices msg)" by simp
  also have "((\<lambda>d. (device_ID d, d)) ` (device ` snd ` set (slotStates a)) =
              (\<lambda>d. (device_ID d, d)) ` set (started_Devices msg)) \<longleftrightarrow>
             device ` snd ` set (slotStates a) = set (started_Devices msg)"
    by (rule inj_image_eq_iff [OF inj])
  finally have eq: "map_of (ourDevices a) = map_of (theirDevices msg) \<longleftrightarrow>
      device ` snd ` set (slotStates a) = set (started_Devices msg)" .
  have lo: "length (ourDevices a) = length (slotStates a)"
    using foldl_update_length [of fst "slotStates a" "[]" "\<lambda>x. device (snd x)"] assms(1)
    by (simp add: ourDevices_alt)
  have lt: "length (theirDevices msg) = length (started_Devices msg)"
    using foldl_update_length [of device_ID "started_Devices msg" "[]" "\<lambda>d. d"] assms(3)
    by (simp add: theirDevices_def)
  have cnt: "length (started_Devices msg) \<noteq> length (slotStates a) \<longrightarrow>
            checkAgentStartedDevicesMatch msg a =
              Some (DeviceCountChanged (int (length (slotStates a)))
                      (int (length (started_Devices msg))))"
    by (simp add: checkAgentStartedDevicesMatch_def lo lt)
  from check_iff_maps [of msg a] eq cnt show ?thesis by auto
qed

theorem checkAgentStartedDevicesMatch_iff_witness:
  "distinct (map fst (slotStates started_two)) \<and> slots_keyed started_two \<and>
   distinct (map device_ID (started_Devices report_same)) \<and>
   distinct (map device_ID (started_Devices report_other)) \<and>
   set (started_Devices report_same) = device ` snd ` set (slotStates started_two) \<and>
   checkAgentStartedDevicesMatch report_same started_two = None \<and>
   set (started_Devices report_other) \<noteq> device ` snd ` set (slotStates started_two) \<and>
   checkAgentStartedDevicesMatch report_other started_two \<noteq> None"
proof -
  have h1: "distinct (map fst (slotStates started_two))" by (simp add: started_two_eq)
  have h2: "slots_keyed started_two" by (simp add: slots_keyed_def started_two_eq gpu_def)
  have h3: "distinct (map device_ID (started_Devices report_same))"
    by (simp add: report_same_def gpu_def)
  have h4: "distinct (map device_ID (started_Devices report_other))"
    by (simp add: report_other_def gpu_def)
  have s1: "set (started_Devices report_same) = device ` snd ` set (slotStates started_two)"
    by (auto simp add: report_same_def started_two_eq)
  have "(gpu 1)\<lparr>Brand := ''amd''\<rparr> \<in> set (started_Devices report_other)"
    by (simp add: report_other_def)
  moreover have "(gpu 1)\<lparr>Brand := ''amd''\<rparr> \<notin> device ` snd ` set (slotStates started_two)"
    by (simp add: started_two_eq gpu_def)
  ultimately have s2:
    "set (started_Devices report_other) \<noteq> device ` snd ` set (slotStates started_two)"
    by blast
  from checkAgentStartedDevicesMatch_iff [OF h1 h2 h3] s1
  have c1: "checkAgentStartedDevicesMatch report_same started_two = None" by blast
  from checkAgentStartedDevicesMatch_iff [OF h1 h2 h4] s2
  have c2: "checkAgentStartedDevicesMatch report_other started_two \<noteq> None" by blast
  from h1 h2 h3 h4 s1 s2 c1 c2 show ?thesis by blast
qed

subsection \<open>Reconciliation after a restart\<close>

lemma unrecoveredDevice_iff:
  "unrecoveredDevice R a d \<longleftrightarrow> (\<exists>c. map_of (Devices a) d = Some (Some c) \<and> map_of R c = None)"
  by (auto simp add: unrecoveredDevice_def split: option.splits)

lemma clearDevices_spec:
  assumes "\<forall>d \<in> set ds. unrecoveredDevice R a d \<longrightarrow> device_ID d \<in> fst ` set (slotStates a)"
  shows "\<exists>a' u'. clearDevices R ds (a, u) = Inr (a', u') \<and>
     a'\<lparr>Devices := Devices a, slotStates := slotStates a\<rparr> = a \<and>
     map fst (Devices a') = map fst (Devices a) \<and>
     map fst (slotStates a') = map fst (slotStates a) \<and>
     (\<forall>d. map_of (Devices a') d =
        (if d \<in> set ds \<and> unrecoveredDevice R a d then Some None else map_of (Devices a) d)) \<and>
     (\<forall>k. map_of (slotStates a') k =
        (if \<exists>d \<in> set ds. unrecoveredDevice R a d \<and> device_ID d = k
         then map_option vacate (map_of (slotStates a) k) else map_of (slotStates a) k))"
  using assms
proof (induction ds arbitrary: a u)
  case Nil
  then show ?case by simp
next
  case (Cons x ds)
  show ?case
  proof (cases "unrecoveredDevice R a x")
    case False
    then have step: "clearDevices R (x # ds) (a, u) = clearDevices R ds (a, u)"
      by (auto simp add: unrecoveredDevice_def split: option.splits)
    from Cons.prems have "\<forall>d \<in> set ds. unrecoveredDevice R a d \<longrightarrow> device_ID d \<in> fst ` set (slotStates a)"
      by simp
    from Cons.IH [OF this, of u] obtain a' u' where
      r: "clearDevices R ds (a, u) = Inr (a', u')"
      and p: "a'\<lparr>Devices := Devices a, slotStates := slotStates a\<rparr> = a"
        "map fst (Devices a') = map fst (Devices a)"
        "map fst (slotStates a') = map fst (slotStates a)"
        "\<forall>d. map_of (Devices a') d =
          (if d \<in> set ds \<and> unrecoveredDevice R a d then Some None else map_of (Devices a) d)"
        "\<forall>k. map_of (slotStates a') k =
          (if \<exists>d \<in> set ds. unrecoveredDevice R a d \<and> device_ID d = k
           then map_option vacate (map_of (slotStates a) k) else map_of (slotStates a) k)"
      by blast
    have d: "\<forall>d. map_of (Devices a') d =
          (if d \<in> set (x # ds) \<and> unrecoveredDevice R a d then Some None else map_of (Devices a) d)"
      using p(4) False by auto
    have s: "\<forall>k. map_of (slotStates a') k =
          (if \<exists>d \<in> set (x # ds). unrecoveredDevice R a d \<and> device_ID d = k
           then map_option vacate (map_of (slotStates a) k) else map_of (slotStates a) k)"
      using p(5) False by auto
    show ?thesis
      apply (rule exI [of _ a'], rule exI [of _ u'])
      using step r p(1,2,3) d s by simp
  next
    case True
    then obtain c where c: "map_of (Devices a) x = Some (Some c)" "map_of R c = None"
      by (auto simp add: unrecoveredDevice_iff)
    from True Cons.prems have "device_ID x \<in> fst ` set (slotStates a)" by simp
    then obtain s where s: "map_of (slotStates a) (device_ID x) = Some s"
      by (metis map_of_eq_None_iff not_Some_eq)
    define a1 where "a1 = a\<lparr>Devices := AList.update x None (Devices a),
                 slotStates := AList.update (device_ID x) (vacate s) (slotStates a)\<rparr>"
    have step: "clearDevices R (x # ds) (a, u) = clearDevices R ds (a1, True)"
      using c s by (simp add: vacate_def a1_def)
    have xin: "x \<in> fst ` set (Devices a)"
      using c(1) by (metis map_of_eq_None_iff option.distinct(1))
    have kin: "device_ID x \<in> fst ` set (slotStates a)"
      using s by (metis map_of_eq_None_iff option.distinct(1))
    have keysD: "map fst (Devices a1) = map fst (Devices a)"
      using xin by (simp add: update_keys a1_def)
    have keysS: "map fst (slotStates a1) = map fst (slotStates a)"
      using kin by (simp add: update_keys a1_def)
    have mD: "map_of (Devices a1) = (map_of (Devices a))(x \<mapsto> None)"
      by (simp add: a1_def update_conv')
    have mS: "map_of (slotStates a1) = (map_of (slotStates a))(device_ID x \<mapsto> vacate s)"
      by (simp add: a1_def update_conv')
    have restore: "a1\<lparr>Devices := Devices a, slotStates := slotStates a\<rparr> = a"
      by (simp add: a1_def)
    have un1: "unrecoveredDevice R a1 d \<longleftrightarrow> d \<noteq> x \<and> unrecoveredDevice R a d" for d
      by (auto simp add: unrecoveredDevice_iff mD)
    have "\<forall>d \<in> set ds. unrecoveredDevice R a1 d \<longrightarrow> device_ID d \<in> fst ` set (slotStates a1)"
      using Cons.prems keysS un1 by (metis list.set_intros(2) set_map)
    from Cons.IH [OF this, of True] obtain a' u' where
      r: "clearDevices R ds (a1, True) = Inr (a', u')"
      and p: "a'\<lparr>Devices := Devices a1, slotStates := slotStates a1\<rparr> = a1"
        "map fst (Devices a') = map fst (Devices a1)"
        "map fst (slotStates a') = map fst (slotStates a1)"
        "\<forall>d. map_of (Devices a') d =
          (if d \<in> set ds \<and> unrecoveredDevice R a1 d then Some None else map_of (Devices a1) d)"
        "\<forall>k. map_of (slotStates a') k =
          (if \<exists>d \<in> set ds. unrecoveredDevice R a1 d \<and> device_ID d = k
           then map_option vacate (map_of (slotStates a1) k) else map_of (slotStates a1) k)"
      by blast
    have f: "a'\<lparr>Devices := Devices a, slotStates := slotStates a\<rparr> = a"
    proof -
      from p(1) have "(a'\<lparr>Devices := Devices a1, slotStates := slotStates a1\<rparr>)
          \<lparr>Devices := Devices a, slotStates := slotStates a\<rparr> =
          a1\<lparr>Devices := Devices a, slotStates := slotStates a\<rparr>" by simp
      with restore show ?thesis by simp
    qed
    have d: "\<forall>d. map_of (Devices a') d =
          (if d \<in> set (x # ds) \<and> unrecoveredDevice R a d then Some None else map_of (Devices a) d)"
    proof
      fix d
      show "map_of (Devices a') d =
          (if d \<in> set (x # ds) \<and> unrecoveredDevice R a d then Some None else map_of (Devices a) d)"
        using p(4) [rule_format, of d] un1 [of d] True
        by (cases "d = x") (simp_all add: mD)
    qed
    have vv: "vacate (vacate t) = vacate t" for t by (simp add: vacate_def)
    have s': "\<forall>k. map_of (slotStates a') k =
          (if \<exists>d \<in> set (x # ds). unrecoveredDevice R a d \<and> device_ID d = k
           then map_option vacate (map_of (slotStates a) k) else map_of (slotStates a) k)"
    proof
      fix k
      show "map_of (slotStates a') k =
          (if \<exists>d \<in> set (x # ds). unrecoveredDevice R a d \<and> device_ID d = k
           then map_option vacate (map_of (slotStates a) k) else map_of (slotStates a) k)"
      proof (cases "k = device_ID x")
        case True
        have "map_of (slotStates a1) k = Some (vacate s)" using True by (simp add: mS)
        with p(5) [rule_format, of k] have "map_of (slotStates a') k = Some (vacate s)"
          by (simp add: vv)
        moreover have "\<exists>d \<in> set (x # ds). unrecoveredDevice R a d \<and> device_ID d = k"
          using True \<open>unrecoveredDevice R a x\<close> by auto
        ultimately show ?thesis using s True by simp
      next
        case False
        have m: "map_of (slotStates a1) k = map_of (slotStates a) k"
          using False by (simp add: mS)
        have e: "(\<exists>d \<in> set ds. unrecoveredDevice R a1 d \<and> device_ID d = k) \<longleftrightarrow>
          (\<exists>d \<in> set (x # ds). unrecoveredDevice R a d \<and> device_ID d = k)"
          using False un1 by auto
        show ?thesis unfolding p(5) [rule_format, of k] m e ..
      qed
    qed
    show ?thesis
      apply (rule exI [of _ a'], rule exI [of _ u'])
      using step r f p(2,3) keysD keysS d s' by simp
  qed
qed

lemma clearUnlessRecovered_eq:
  assumes "clearDevices R (map fst (Devices a)) (a, False) = Inr (a1, u1)"
  shows "\<exists>err. clearUnlessRecovered R perr a =
     Inr (err,
          a1\<lparr>slotStates :=
                map (\<lambda>(k, s). (k, if unrecoveredSlot R s then vacate s else s)) (slotStates a1),
              containerState :=
                filter (\<lambda>(cid, c). map_of R cid \<noteq> None) (containerState a1),
              containerAllocation :=
                filter (\<lambda>(cid, al). map_of R cid \<noteq> None) (containerAllocation a1)\<rparr>)"
proof -
  have "(\<lambda>(k :: int, s). if unrecoveredSlot R s then (k, s\<lparr>containerID := None\<rparr>) else (k, s)) =
        (\<lambda>(k, s). (k, if unrecoveredSlot R s then vacate s else s))"
    by (auto simp add: fun_eq_iff vacate_def)
  then show ?thesis
    using assms by (simp add: clearUnlessRecovered_def Let_def)
qed

text \<open>
  Claim C7 as stated fails: \<open>clearUnlessRecovered\<close> clears a slot whose occupant is among
  the recovered containers.  Device 0 is reserved for \<open>c1\<close> in the device view while its slot
  runs \<open>c2\<close>; only \<open>c2\<close> is recovered.  Clearing the device of \<open>c1\<close>, the first loop also
  clears the slot of device 0, whose occupant \<open>c2\<close> is recovered.
\<close>

lemma mixed_occupants_eq:
  "mixed_occupants =
     \<lparr>agent_id = ''agent-1'', Devices = [(gpu 0, Some ''c1''), (gpu 1, None)],
      resourcePoolName = [], agent_enabled = True, agent_draining = False,
      agent_uuid = ''u-1'', maxZeroSlotContainers = 4,
      slotStates =
        [(0, \<lparr>device = gpu 0,
              slot_enabled = \<lparr>deviceAdded = True, agentEnabled = True,
                               userEnabled = True, draining = False\<rparr>,
              containerID = Some ''c2''\<rparr>),
         (1, \<lparr>device = gpu 1,
              slot_enabled = \<lparr>deviceAdded = True, agentEnabled = True,
                               userEnabled = True, draining = False\<rparr>,
              containerID = None\<rparr>)],
      containerAllocation = [(''c2'', ''alloc-2'')],
      containerState =
        [(''c1'', \<lparr>container_ID = ''c1'', container_State = Unset,
                    container_Devices = [gpu 0]\<rparr>),
         (''c2'', start_Container start_c2_on_0)]\<rparr>"
  by (simp add: mixed_occupants_def started_two_eq start_c2_on_0_def startContainer_def
      inner_def enabled_def gpu_def allocateFreeDevices_def cap_limit_64_def Let_def)

theorem clearUnlessRecovered_counterexample:
  "map_of only_c2 ''c2'' \<noteq> None \<and>
   map_option containerID (map_of (slotStates mixed_occupants) 0) = Some (Some ''c2'') \<and>
   (case clearUnlessRecovered only_c2 None mixed_occupants of
      Inl panic \<Rightarrow> False
    | Inr (err, a') \<Rightarrow> map_option containerID (map_of (slotStates a') 0) = Some None)"
  by (simp add: mixed_occupants_eq only_c2_def clearUnlessRecovered_def unrecoveredSlot_def
      gpu_def)

text \<open>
  Claim C7, amended.  On an aggregate in which every device of the view with an occupant
  that is not recovered has a slot, \<open>clearUnlessRecovered\<close> returns (it does not panic) and:
  the view has the same devices, a device whose occupant is not recovered has no occupant,
  every other device is as before; the slots have the same keys, a slot is cleared when its
  occupant is not recovered or when a device of the view with its ID had an occupant that is
  not recovered, every other slot is as before; the container records and the
  container-to-allocation entries are those of before whose ID is recovered; no other field
  changes.
\<close>

theorem clearUnlessRecovered_clears:
  assumes "\<forall>d \<in> fst ` set (Devices a).
     unrecoveredDevice R a d \<longrightarrow> device_ID d \<in> fst ` set (slotStates a)"
  shows "\<exists>err a'. clearUnlessRecovered R perr a = Inr (err, a') \<and>
     map fst (Devices a') = map fst (Devices a) \<and>
     (\<forall>d. map_of (Devices a') d =
        (if unrecoveredDevice R a d then Some None else map_of (Devices a) d)) \<and>
     map fst (slotStates a') = map fst (slotStates a) \<and>
     (\<forall>k. map_of (slotStates a') k =
        map_option
          (\<lambda>s. if unrecoveredSlot R s \<or> (\<exists>d. unrecoveredDevice R a d \<and> device_ID d = k)
               then vacate s else s)
          (map_of (slotStates a) k)) \<and>
     containerState a' = filter (\<lambda>(cid, c). map_of R cid \<noteq> None) (containerState a) \<and>
     containerAllocation a' =
       filter (\<lambda>(cid, al). map_of R cid \<noteq> None) (containerAllocation a) \<and>
     a'\<lparr>Devices := Devices a, slotStates := slotStates a, containerState := containerState a,
        containerAllocation := containerAllocation a\<rparr> = a"
proof -
  define ds where "ds = map fst (Devices a)"
  from assms have "\<forall>d \<in> set ds.
     unrecoveredDevice R a d \<longrightarrow> device_ID d \<in> fst ` set (slotStates a)"
    by (simp add: ds_def)
  from clearDevices_spec [OF this, of False] obtain a1 u1 where
    r: "clearDevices R ds (a, False) = Inr (a1, u1)"
    and p: "a1\<lparr>Devices := Devices a, slotStates := slotStates a\<rparr> = a"
      "map fst (Devices a1) = map fst (Devices a)"
      "map fst (slotStates a1) = map fst (slotStates a)"
      "\<forall>d. map_of (Devices a1) d =
        (if d \<in> set ds \<and> unrecoveredDevice R a d then Some None
         else map_of (Devices a) d)"
      "\<forall>k. map_of (slotStates a1) k =
        (if \<exists>d \<in> set ds. unrecoveredDevice R a d \<and> device_ID d = k
         then map_option vacate (map_of (slotStates a) k) else map_of (slotStates a) k)"
    by blast
  define a' where "a' = a1\<lparr>slotStates :=
                map (\<lambda>(k, s). (k, if unrecoveredSlot R s then vacate s else s)) (slotStates a1),
              containerState :=
                filter (\<lambda>(cid, c). map_of R cid \<noteq> None) (containerState a1),
              containerAllocation :=
                filter (\<lambda>(cid, al). map_of R cid \<noteq> None) (containerAllocation a1)\<rparr>"
  from clearUnlessRecovered_eq [OF r [unfolded ds_def], of perr] obtain err where
    res: "clearUnlessRecovered R perr a = Inr (err, a')" unfolding a'_def by blast
  have indom: "unrecoveredDevice R a d \<Longrightarrow> d \<in> set ds" for d
    unfolding ds_def
    by (auto simp add: unrecoveredDevice_iff dest: map_of_SomeD intro: rev_image_eqI)
  from p(1) have "containerState (a1\<lparr>Devices := Devices a, slotStates := slotStates a\<rparr>) =
      containerState a"
    and "containerAllocation (a1\<lparr>Devices := Devices a, slotStates := slotStates a\<rparr>) =
      containerAllocation a" by simp_all
  then have same: "containerState a1 = containerState a"
    "containerAllocation a1 = containerAllocation a" by simp_all
  have c1: "map fst (Devices a') = map fst (Devices a)"
    using p(2) by (simp add: a'_def)
  have c2: "\<forall>d. map_of (Devices a') d =
        (if unrecoveredDevice R a d then Some None else map_of (Devices a) d)"
    using p(4) indom by (auto simp add: a'_def)
  have c3: "map fst (slotStates a') = map fst (slotStates a)"
    using p(3) by (simp add: a'_def comp_def split_def)
  have vv: "vacate (vacate t) = vacate t" for t by (simp add: vacate_def)
  have nv: "\<not> unrecoveredSlot R (vacate t)" for t
    by (simp add: unrecoveredSlot_def vacate_def)
  have c4: "\<forall>k. map_of (slotStates a') k =
        map_option
          (\<lambda>s. if unrecoveredSlot R s \<or> (\<exists>d. unrecoveredDevice R a d \<and> device_ID d = k)
               then vacate s else s)
          (map_of (slotStates a) k)"
  proof
    fix k
    have "map_of (slotStates a') k =
        map_option (\<lambda>s. if unrecoveredSlot R s then vacate s else s) (map_of (slotStates a1) k)"
      by (simp add: a'_def map_of_map_snd)
    also have "\<dots> = map_option
          (\<lambda>s. if unrecoveredSlot R s \<or> (\<exists>d. unrecoveredDevice R a d \<and> device_ID d = k)
               then vacate s else s)
          (map_of (slotStates a) k)"
    proof (cases "\<exists>d. unrecoveredDevice R a d \<and> device_ID d = k")
      case True
      then have "\<exists>d \<in> set ds. unrecoveredDevice R a d \<and> device_ID d = k"
        using indom by blast
      with p(5) [rule_format, of k]
      have "map_of (slotStates a1) k = map_option vacate (map_of (slotStates a) k)"
        by (simp only: if_True)
      with True show ?thesis
        by (cases "map_of (slotStates a) k") (simp_all add: nv)
    next
      case False
      then have "\<not> (\<exists>d \<in> set ds. unrecoveredDevice R a d \<and> device_ID d = k)"
        by blast
      with p(5) [rule_format, of k]
      have "map_of (slotStates a1) k = map_of (slotStates a) k"
        by (simp only: if_False)
      with False show ?thesis
        by (cases "map_of (slotStates a) k") auto
    qed
    finally show "map_of (slotStates a') k =
        map_option
          (\<lambda>s. if unrecoveredSlot R s \<or> (\<exists>d. unrecoveredDevice R a d \<and> device_ID d = k)
               then vacate s else s)
          (map_of (slotStates a) k)" .
  qed
  have c5: "containerState a' = filter (\<lambda>(cid, c). map_of R cid \<noteq> None) (containerState a)"
    by (simp add: a'_def same)
  have c6: "containerAllocation a' =
       filter (\<lambda>(cid, al). map_of R cid \<noteq> None) (containerAllocation a)"
    by (simp add: a'_def same)
  have c7: "a'\<lparr>Devices := Devices a, slotStates := slotStates a, containerState := containerState a,
        containerAllocation := containerAllocation a\<rparr> = a"
  proof -
    from p(1) have "(a1\<lparr>Devices := Devices a, slotStates := slotStates a\<rparr>)
        \<lparr>containerState := containerState a, containerAllocation := containerAllocation a\<rparr> =
        a\<lparr>containerState := containerState a, containerAllocation := containerAllocation a\<rparr>"
      by simp
    then show ?thesis by (simp add: a'_def)
  qed
  show ?thesis
    apply (rule exI [of _ err], rule exI [of _ a'])
    using res c1 c2 c3 c4 c5 c6 c7 by blast
qed

theorem clearUnlessRecovered_clears_witness:
  "unrecoveredDevice only_c2 mixed_occupants (gpu 0) \<and>
   device_ID (gpu 0) \<in> fst ` set (slotStates mixed_occupants) \<and>
   (\<exists>err a'. clearUnlessRecovered only_c2 None mixed_occupants = Inr (err, a') \<and>
      map_of (Devices a') (gpu 0) = Some None \<and>
      map fst (containerState a') = [''c2''] \<and>
      containerAllocation a' = [(''c2'', ''alloc-2'')])"
proof -
  have h: "\<forall>d \<in> fst ` set (Devices mixed_occupants).
      unrecoveredDevice only_c2 mixed_occupants d \<longrightarrow>
      device_ID d \<in> fst ` set (slotStates mixed_occupants)"
    by (simp add: mixed_occupants_eq gpu_def)
  have u: "unrecoveredDevice only_c2 mixed_occupants (gpu 0)"
    by (simp add: unrecoveredDevice_def mixed_occupants_eq only_c2_def gpu_def)
  have f1: "filter (\<lambda>(cid, c). map_of only_c2 cid \<noteq> None) (containerState mixed_occupants) =
      [(''c2'', start_Container start_c2_on_0)]"
    by (simp add: mixed_occupants_eq only_c2_def)
  have f2: "filter (\<lambda>(cid, al). map_of only_c2 cid \<noteq> None)
      (containerAllocation mixed_occupants) = [(''c2'', ''alloc-2'')]"
    by (simp add: mixed_occupants_eq only_c2_def)
  from clearUnlessRecovered_clears [OF h, of None] obtain err a' where
    r: "clearUnlessRecovered only_c2 None mixed_occupants = Inr (err, a')"
    and d: "\<forall>d. map_of (Devices a') d =
        (if unrecoveredDevice only_c2 mixed_occupants d then Some None
         else map_of (Devices mixed_occupants) d)"
    and c: "containerState a' =
        filter (\<lambda>(cid, c). map_of only_c2 cid \<noteq> None) (containerState mixed_occupants)"
    and al: "containerAllocation a' =
        filter (\<lambda>(cid, al). map_of only_c2 cid \<noteq> None) (containerAllocation mixed_occupants)"
    by blast
  from d u have g0: "map_of (Devices a') (gpu 0) = Some None" by simp
  from c f1 have cs: "map fst (containerState a') = [''c2'']" by simp
  from al f2 have ca: "containerAllocation a' = [(''c2'', ''alloc-2'')]" by simp
  have ex: "\<exists>err a'. clearUnlessRecovered only_c2 None mixed_occupants = Inr (err, a') \<and>
      map_of (Devices a') (gpu 0) = Some None \<and>
      map fst (containerState a') = [''c2''] \<and>
      containerAllocation a' = [(''c2'', ''alloc-2'')]"
    apply (rule exI [of _ err], rule exI [of _ a'])
    using r g0 cs ca by simp
  have k: "device_ID (gpu 0) \<in> fst ` set (slotStates mixed_occupants)"
    by (simp add: mixed_occupants_eq gpu_def)
  from u k ex show ?thesis by (intro conjI)
qed

subsection \<open>Snapshot and recovery\<close>

lemma update_append:
  "k \<notin> fst ` set m \<Longrightarrow> AList.update k v m = m @ [(k, v)]"
  by (induction m) auto

lemma foldl_update_append:
  "distinct (map kf xs) \<Longrightarrow> set (map kf xs) \<inter> fst ` set m0 = {} \<Longrightarrow>
   foldl (\<lambda>m x. AList.update (kf x) (vf x) m) m0 xs = m0 @ map (\<lambda>x. (kf x, vf x)) xs"
proof (induction xs arbitrary: m0)
  case Nil
  then show ?case by simp
next
  case (Cons x xs)
  from Cons.prems have notin: "kf x \<notin> fst ` set m0" by auto
  then have u: "AList.update (kf x) (vf x) m0 = m0 @ [(kf x, vf x)]" by (rule update_append)
  have "set (map kf xs) \<inter> fst ` set (m0 @ [(kf x, vf x)]) = {}"
    using Cons.prems by auto
  with Cons.IH [of "m0 @ [(kf x, vf x)]"] Cons.prems u show ?case by simp
qed

lemma foldl_update_dom:
  "fst ` set (foldl (\<lambda>m x. AList.update (kf x) (vf x) m) m0 xs) = fst ` set m0 \<union> kf ` set xs"
  by (induction xs arbitrary: m0) (auto simp add: dom_update)

lemma restoreSlots_foldl:
  "restoreSlots as sds (S, D) =
     (foldl (\<lambda>m sd. AList.update (device_ID (data_Device sd)) (restoredSlot as sd) m) S sds,
      foldl (\<lambda>m sd. AList.update (data_Device sd) (data_ContainerID sd) m) D sds)"
  by (induction sds arbitrary: S D) (auto simp add: restoredSlot_def)

lemma snapshot_Slots: "snap_Slots (snapshot a) = map (\<lambda>x. slotDataOf (snd x)) (slotStates a)"
  by (simp add: snapshot_def slotDataOf_def split_def)

lemma restoreSlots_snapshot:
  assumes "slots_keyed a" and "distinct (map fst (slotStates a))"
  shows "restoreSlots (snapshot a) (snap_Slots (snapshot a)) ([], []) =
     (map (\<lambda>x. (fst x, restoredSlot (snapshot a) (slotDataOf (snd x)))) (slotStates a),
      map (\<lambda>x. (device (snd x), containerID (snd x))) (slotStates a))"
proof -
  define xs where "xs = map (\<lambda>x. slotDataOf (snd x)) (slotStates a)"
  have ids: "map (\<lambda>sd. device_ID (data_Device sd)) xs = map fst (slotStates a)"
    using assms(1) by (auto simp add: xs_def slotDataOf_def slots_keyed_def)
  then have d1: "distinct (map (\<lambda>sd. device_ID (data_Device sd)) xs)"
    using assms(2) by simp
  have "map (\<lambda>sd. device_ID (data_Device sd)) xs = map device_ID (map data_Device xs)"
    by simp
  with d1 have "distinct (map device_ID (map data_Device xs))" by simp
  then have d2: "distinct (map data_Device xs)" by (metis distinct_map)
  have s1: "foldl (\<lambda>m sd. AList.update (device_ID (data_Device sd)) (restoredSlot (snapshot a) sd) m) [] xs =
      map (\<lambda>sd. (device_ID (data_Device sd), restoredSlot (snapshot a) sd)) xs"
    using foldl_update_append [of "\<lambda>sd. device_ID (data_Device sd)" xs "[]"
        "restoredSlot (snapshot a)"] d1 by simp
  have s2: "foldl (\<lambda>m sd. AList.update (data_Device sd) (data_ContainerID sd) m) [] xs =
      map (\<lambda>sd. (data_Device sd, data_ContainerID sd)) xs"
    using foldl_update_append [of data_Device xs "[]" data_ContainerID] d2 by simp
  have k: "map (\<lambda>sd. (device_ID (data_Device sd), restoredSlot (snapshot a) sd)) xs =
      map (\<lambda>x. (fst x, restoredSlot (snapshot a) (slotDataOf (snd x)))) (slotStates a)"
    using assms(1) by (auto simp add: xs_def slotDataOf_def slots_keyed_def)
  have dv: "map (\<lambda>sd. (data_Device sd, data_ContainerID sd)) xs =
      map (\<lambda>x. (device (snd x), containerID (snd x))) (slotStates a)"
    by (simp add: xs_def slotDataOf_def)
  show ?thesis
    unfolding snapshot_Slots xs_def [symmetric] restoreSlots_foldl s1 s2 k dv ..
qed

lemma slot_0_disabled_eq:
  "slot_0_disabled =
     \<lparr>agent_id = ''agent-1'', Devices = [(gpu 1, None)],
      resourcePoolName = [], agent_enabled = True, agent_draining = False,
      agent_uuid = ''u-1'', maxZeroSlotContainers = 4,
      slotStates =
        [(0, \<lparr>device = gpu 0,
              slot_enabled = \<lparr>deviceAdded = False, agentEnabled = True,
                               userEnabled = False, draining = False\<rparr>,
              containerID = Some ''c2''\<rparr>),
         (1, \<lparr>device = gpu 1,
              slot_enabled = \<lparr>deviceAdded = True, agentEnabled = True,
                               userEnabled = True, draining = False\<rparr>,
              containerID = None\<rparr>)],
      containerAllocation = [(''c2'', ''alloc-2'')],
      containerState = [(''c2'', start_Container start_c2_on_0)]\<rparr>"
  by (simp add: slot_0_disabled_def running_c2_eq disable_slot_0_def patchSlotState_def
      patchSlotStateInner_def updateSlotDeviceView_def enabled_def removeDevice_def
      Let_def gpu_def)

lemma recovered_slot_0_disabled:
  "newAgentStateFromSnapshot Some store_c2 (snapshot slot_0_disabled) =
     Inr \<lparr>agent_id = ''agent-1'', Devices = [(gpu 0, Some ''c2''), (gpu 1, None)],
      resourcePoolName = [], agent_enabled = True, agent_draining = False,
      agent_uuid = ''u-1'', maxZeroSlotContainers = 4,
      slotStates =
        [(0, \<lparr>device = gpu 0,
              slot_enabled = \<lparr>deviceAdded = True, agentEnabled = True,
                               userEnabled = True, draining = False\<rparr>,
              containerID = Some ''c2''\<rparr>),
         (1, \<lparr>device = gpu 1,
              slot_enabled = \<lparr>deviceAdded = True, agentEnabled = True,
                               userEnabled = True, draining = False\<rparr>,
              containerID = None\<rparr>)],
      containerAllocation = [],
      containerState = [(''c2'', start_Container start_c2_on_0)]\<rparr>"
  by (simp add: slot_0_disabled_eq newAgentStateFromSnapshot_def snapshot_def store_c2_def
      start_c2_on_0_def gpu_def)

text \<open>
  Claim C1 as stated fails.  The slot of device 0 has been disabled by a patch while the
  container \<open>c2\<close> runs on it: its flags are \<open>deviceAdded = false\<close>, \<open>userEnabled = false\<close> and
  its device is not in the view.  In the aggregate recovered from the snapshot the slot has
  \<open>deviceAdded = true\<close> and \<open>userEnabled = true\<close>, and the view maps device 0 to \<open>c2\<close>.
\<close>

theorem snapshot_recover_counterexample:
  "map_option slot_enabled (map_of (slotStates slot_0_disabled) 0) =
     Some \<lparr>deviceAdded = False, agentEnabled = True, userEnabled = False, draining = False\<rparr> \<and>
   map_of (Devices slot_0_disabled) (gpu 0) = None \<and>
   (case newAgentStateFromSnapshot Some store_c2 (snapshot slot_0_disabled) of
      Inl err \<Rightarrow> False
    | Inr r \<Rightarrow>
        map_option slot_enabled (map_of (slotStates r) 0) =
          Some \<lparr>deviceAdded = True, agentEnabled = True, userEnabled = True, draining = False\<rparr> \<and>
        map_of (Devices r) (gpu 0) = Some (Some ''c2''))"
  unfolding recovered_slot_0_disabled
  by (simp add: slot_0_disabled_eq gpu_def)

text \<open>
  Claim C1, amended.  Take an aggregate whose slots are stored one per key, each under the
  ID of its own device, a UUID that parses back to itself, and a store that answers the
  query for the tracked containers with exactly their rows.  Then recovery from the snapshot
  succeeds, and in the recovered aggregate: the slots have the keys, devices and occupants
  of before, every slot has \<open>deviceAdded\<close> set and \<open>agentEnabled\<close> and \<open>draining\<close> equal to
  the agent's \<open>enabled\<close> and \<open>draining\<close>; the device view maps the device of every slot to
  the occupant of that slot; the tracked container IDs are those of before; the
  container-to-allocation map is empty; the agent's ID, resource pool, \<open>enabled\<close>,
  \<open>draining\<close>, UUID and zero-slot capacity are those of before.
\<close>

theorem snapshot_recover:
  assumes "parse (agent_uuid a) = Some (agent_uuid a)"
    and "select (map fst (containerState a)) = Inr rows"
    and "container_ID ` set rows = fst ` set (containerState a)"
    and "slots_keyed a" and "distinct (map fst (slotStates a))"
  shows "\<exists>r. newAgentStateFromSnapshot parse select (snapshot a) = Inr r \<and>
     map (\<lambda>x. (fst x, slotView (snd x))) (slotStates r) =
       map (\<lambda>x. (fst x, device (snd x), containerID (snd x), True, agent_enabled a,
                   agent_draining a)) (slotStates a) \<and>
     Devices r = map (\<lambda>x. (device (snd x), containerID (snd x))) (slotStates a) \<and>
     fst ` set (containerState r) = fst ` set (containerState a) \<and>
     containerAllocation r = [] \<and>
     agent_id r = agent_id a \<and> resourcePoolName r = resourcePoolName a \<and>
     agent_enabled r = agent_enabled a \<and> agent_draining r = agent_draining a \<and>
     agent_uuid r = agent_uuid a \<and> maxZeroSlotContainers r = maxZeroSlotContainers a"
proof -
  define cs where "cs = (if containerState a = [] then []
     else foldl (\<lambda>m c. AList.update (container_ID c) c m) [] rows)"
  define r where "r =
     \<lparr>agent_id = agent_id a,
      Devices = map (\<lambda>x. (device (snd x), containerID (snd x))) (slotStates a),
      resourcePoolName = resourcePoolName a, agent_enabled = agent_enabled a,
      agent_draining = agent_draining a, agent_uuid = agent_uuid a,
      maxZeroSlotContainers = maxZeroSlotContainers a,
      slotStates = map (\<lambda>x. (fst x, restoredSlot (snapshot a) (slotDataOf (snd x)))) (slotStates a),
      containerAllocation = [], containerState = cs\<rparr>"
  have fields: "snap_UUID (snapshot a) = agent_uuid a"
    "snap_Containers (snapshot a) = map fst (containerState a)"
    "snap_AgentID (snapshot a) = agent_id a"
    "snap_ResourcePoolName (snapshot a) = resourcePoolName a"
    "snap_UserEnabled (snapshot a) = agent_enabled a"
    "snap_UserDraining (snapshot a) = agent_draining a"
    "snap_MaxZeroSlotContainers (snapshot a) = maxZeroSlotContainers a"
    by (simp_all add: snapshot_def)
  have res: "newAgentStateFromSnapshot parse select (snapshot a) = Inr r"
    unfolding newAgentStateFromSnapshot_def restoreSlots_snapshot [OF assms(4,5)] fields
    using assms(1,2) by (simp add: r_def cs_def)
  have sl: "map (\<lambda>x. (fst x, slotView (snd x))) (slotStates r) =
       map (\<lambda>x. (fst x, device (snd x), containerID (snd x), True, agent_enabled a,
                   agent_draining a)) (slotStates a)"
    by (simp add: r_def slotView_def restoredSlot_def slotDataOf_def fields comp_def)
  have cont: "fst ` set (containerState r) = fst ` set (containerState a)"
  proof (cases "containerState a = []")
    case True
    then show ?thesis by (simp add: r_def cs_def)
  next
    case False
    then have "containerState r = foldl (\<lambda>m c. AList.update (container_ID c) c m) [] rows"
      by (simp add: r_def cs_def)
    then have "fst ` set (containerState r) = container_ID ` set rows"
      by (simp add: foldl_update_dom)
    with assms(3) show ?thesis by simp
  qed
  show ?thesis
    apply (rule exI [of _ r])
    using res sl cont by (simp add: r_def)
qed

theorem snapshot_recover_witness:
  "Some (agent_uuid slot_0_disabled) = Some (agent_uuid slot_0_disabled) \<and>
   store_c2 (map fst (containerState slot_0_disabled)) = Inr [start_Container start_c2_on_0] \<and>
   container_ID ` set [start_Container start_c2_on_0] =
     fst ` set (containerState slot_0_disabled) \<and>
   slots_keyed slot_0_disabled \<and> distinct (map fst (slotStates slot_0_disabled)) \<and>
   (\<exists>r. newAgentStateFromSnapshot Some store_c2 (snapshot slot_0_disabled) = Inr r \<and>
      Devices r = [(gpu 0, Some ''c2''), (gpu 1, None)] \<and>
      fst ` set (containerState r) = {''c2''} \<and> containerAllocation r = [])"
proof -
  have h1: "Some (agent_uuid slot_0_disabled) = Some (agent_uuid slot_0_disabled)" by simp
  have h2: "store_c2 (map fst (containerState slot_0_disabled)) =
      Inr [start_Container start_c2_on_0]"
    by (simp add: store_c2_def slot_0_disabled_eq start_c2_on_0_def)
  have h3: "container_ID ` set [start_Container start_c2_on_0] =
      fst ` set (containerState slot_0_disabled)"
    by (simp add: slot_0_disabled_eq start_c2_on_0_def)
  have h4: "slots_keyed slot_0_disabled"
    by (simp add: slots_keyed_def slot_0_disabled_eq gpu_def)
  have h5: "distinct (map fst (slotStates slot_0_disabled))"
    by (simp add: slot_0_disabled_eq)
  have v: "map (\<lambda>x. (device (snd x), containerID (snd x))) (slotStates slot_0_disabled) =
      [(gpu 0, Some ''c2''), (gpu 1, None)]"
    by (simp add: slot_0_disabled_eq)
  have k: "fst ` set (containerState slot_0_disabled) = {''c2''}"
    by (simp add: slot_0_disabled_eq)
  from snapshot_recover [where parse = Some and a = slot_0_disabled and select = store_c2,
      OF h1 h2 h3 h4 h5] obtain r where
    r: "newAgentStateFromSnapshot Some store_c2 (snapshot slot_0_disabled) = Inr r"
      "Devices r = map (\<lambda>x. (device (snd x), containerID (snd x))) (slotStates slot_0_disabled)"
      "fst ` set (containerState r) = fst ` set (containerState slot_0_disabled)"
      "containerAllocation r = []"
    by blast
  have ex: "\<exists>r. newAgentStateFromSnapshot Some store_c2 (snapshot slot_0_disabled) = Inr r \<and>
      Devices r = [(gpu 0, Some ''c2''), (gpu 1, None)] \<and>
      fst ` set (containerState r) = {''c2''} \<and> containerAllocation r = []"
    apply (rule exI [of _ r])
    using r v k by simp
  from h1 h2 h3 h4 h5 ex show ?thesis by (intro conjI)
qed

subsection \<open>Copies for the scheduler\<close>

lemma allocatedE:
  assumes "allocated h p"
  obtains d s c al where "ref_Devices p = Some d" "ref_slotStates p = Some s"
    "ref_containerState p = Some c" "ref_containerAllocation p = Some al"
    "d < next_addr h" "s < next_addr h" "c < next_addr h" "al < next_addr h"
  using assms by (auto simp add: allocated_def split: option.splits)

lemma deepCopy_view:
  assumes "allocated h a"
  shows "view (fst (deepCopy h a)) (snd (deepCopy h a)) =
     (view h a)\<lparr>agent_uuid := zero_uuid, containerAllocation := []\<rparr>"
proof -
  from assms obtain d s c al where r: "ref_Devices a = Some d" "ref_slotStates a = Some s"
    "ref_containerState a = Some c" "ref_containerAllocation a = Some al"
    "d < next_addr h" "s < next_addr h" "c < next_addr h" "al < next_addr h"
    by (rule allocatedE)
  show ?thesis
    using r by (simp add: deepCopy_def maps_Clone_def view_def read_map_def Let_def)
qed

lemma deepCopy_keeps_original:
  assumes "allocated h a"
  shows "view (fst (deepCopy h a)) a = view h a"
proof -
  from assms obtain d s c al where r: "ref_Devices a = Some d" "ref_slotStates a = Some s"
    "ref_containerState a = Some c" "ref_containerAllocation a = Some al"
    "d < next_addr h" "s < next_addr h" "c < next_addr h" "al < next_addr h"
    by (rule allocatedE)
  show ?thesis
    using r by (simp add: deepCopy_def maps_Clone_def view_def read_map_def Let_def)
qed

text \<open>
  Claim C6 as stated fails for the slots.  The original and its copy refer to the same map
  of slots: when the original is told that the container \<open>c2\<close> runs on device 0, the slot of
  device 0 has the occupant \<open>c2\<close> in the copy too, where it had none when the copy was made.
\<close>

theorem deepCopy_shares_slots_counterexample:
  "map_option containerID (map_of (slotStates (view heap_after_copy copy_ref)) 0) = Some None \<and>
   (case exec (containerStateChanged c2_running) heap_after_copy original_ref of
      None \<Rightarrow> False
    | Some (h, p) \<Rightarrow>
        map_option containerID (map_of (slotStates (view h copy_ref)) 0) = Some (Some ''c2''))"
  by (simp add: heap_after_copy_def copy_ref_def original_ref_def allocate_def empty_heap_def
      deepCopy_def maps_Clone_def read_map_def view_def exec_def Let_def started_two_eq
      containerStateChanged_def c2_running_def gpu_def)

text \<open>
  Claim C6, amended.  Take an aggregate whose maps are allocated, copy it with \<open>deepCopy\<close>
  and then run any method \<open>f\<close> on the original.  The copy stood, when it was made, for the
  aggregate of the original, but for the UUID and the container-to-allocation map, which it
  does not carry.  After \<open>f\<close>, the device view and the container records of the copy are
  those of the original at the time of the copy, and so are its scalar fields: what \<open>f\<close>
  does to them in the original is not observable through the copy.  The slots of the copy
  are the slots of the original after \<open>f\<close>: the map of slots is shared.
\<close>

theorem deepCopy_isolation:
  assumes "allocated h a"
  shows "view (fst (deepCopy h a)) (snd (deepCopy h a)) =
       (view h a)\<lparr>agent_uuid := zero_uuid, containerAllocation := []\<rparr> \<and>
     (\<exists>h' a'. exec f (fst (deepCopy h a)) a = Some (h', a') \<and>
        view h' a' = f (view h a) \<and>
        Devices (view h' (snd (deepCopy h a))) = Devices (view h a) \<and>
        containerState (view h' (snd (deepCopy h a))) = containerState (view h a) \<and>
        agent_enabled (view h' (snd (deepCopy h a))) = agent_enabled (view h a) \<and>
        agent_draining (view h' (snd (deepCopy h a))) = agent_draining (view h a) \<and>
        maxZeroSlotContainers (view h' (snd (deepCopy h a))) = maxZeroSlotContainers (view h a) \<and>
        agent_id (view h' (snd (deepCopy h a))) = agent_id (view h a) \<and>
        resourcePoolName (view h' (snd (deepCopy h a))) = resourcePoolName (view h a) \<and>
        slotStates (view h' (snd (deepCopy h a))) = slotStates (f (view h a)))"
proof -
  from assms obtain d s c al where r: "ref_Devices a = Some d" "ref_slotStates a = Some s"
    "ref_containerState a = Some c" "ref_containerAllocation a = Some al"
    "d < next_addr h" "s < next_addr h" "c < next_addr h" "al < next_addr h"
    by (rule allocatedE)
  define h1 where "h1 = fst (deepCopy h a)"
  define b where "b = snd (deepCopy h a)"
  have v1: "view h1 a = view h a"
    unfolding h1_def by (rule deepCopy_keeps_original [OF assms])
  have b: "ref_Devices b = Some (next_addr h)" "ref_containerState b = Some (next_addr h + 1)"
    "ref_slotStates b = Some s" "ref_containerAllocation b = None"
    "ref_enabled b = ref_enabled a" "ref_draining b = ref_draining a"
    "ref_maxZeroSlotContainers b = ref_maxZeroSlotContainers a" "ref_id b = ref_id a"
    "ref_resourcePoolName b = ref_resourcePoolName a"
    using r by (simp_all add: b_def deepCopy_def maps_Clone_def Let_def)
  have h1: "deviceMaps h1 (next_addr h) = Some (Devices (view h a))"
    "containerMaps h1 (next_addr h + 1) = Some (containerState (view h a))"
    using r by (simp_all add: h1_def deepCopy_def maps_Clone_def Let_def view_def)
  define a2 where "a2 = f (view h a)"
  define h2 where "h2 = h1\<lparr>deviceMaps := (deviceMaps h1)(d \<mapsto> Devices a2),
                      slotMaps := (slotMaps h1)(s \<mapsto> slotStates a2),
                      containerMaps := (containerMaps h1)(c \<mapsto> containerState a2),
                      allocationMaps := (allocationMaps h1)(al \<mapsto> containerAllocation a2)\<rparr>"
  define a' where "a' = a\<lparr>ref_id := agent_id a2, ref_resourcePoolName := resourcePoolName a2,
                      ref_enabled := agent_enabled a2, ref_draining := agent_draining a2,
                      ref_uuid := agent_uuid a2,
                      ref_maxZeroSlotContainers := maxZeroSlotContainers a2\<rparr>"
  have ex: "exec f h1 a = Some (h2, a')"
    using r by (simp add: exec_def v1 a2_def h2_def a'_def Let_def)
  have va: "view h2 a' = a2"
    using r by (simp add: view_def h2_def a'_def read_map_def)
  have vb: "Devices (view h2 b) = Devices (view h a)"
    "containerState (view h2 b) = containerState (view h a)"
    "slotStates (view h2 b) = slotStates a2"
    "agent_enabled (view h2 b) = agent_enabled (view h a)"
    "agent_draining (view h2 b) = agent_draining (view h a)"
    "maxZeroSlotContainers (view h2 b) = maxZeroSlotContainers (view h a)"
    "agent_id (view h2 b) = agent_id (view h a)"
    "resourcePoolName (view h2 b) = resourcePoolName (view h a)"
    using r b h1 by (simp_all add: view_def h2_def read_map_def)
  have "\<exists>h' a'. exec f h1 a = Some (h', a') \<and>
        view h' a' = f (view h a) \<and>
        Devices (view h' b) = Devices (view h a) \<and>
        containerState (view h' b) = containerState (view h a) \<and>
        agent_enabled (view h' b) = agent_enabled (view h a) \<and>
        agent_draining (view h' b) = agent_draining (view h a) \<and>
        maxZeroSlotContainers (view h' b) = maxZeroSlotContainers (view h a) \<and>
        agent_id (view h' b) = agent_id (view h a) \<and>
        resourcePoolName (view h' b) = resourcePoolName (view h a) \<and>
        slotStates (view h' b) = slotStates (f (view h a))"
    apply (rule exI [of _ h2], rule exI [of _ a'])
    using ex va vb by (simp add: a2_def)
  then show ?thesis
    unfolding h1_def b_def using deepCopy_view [OF assms] by simp
qed

lemma view_original: "view (fst (allocate empty_heap started_two)) original_ref = started_two"
  by (simp add: original_ref_def allocate_def empty_heap_def view_def read_map_def Let_def)

theorem deepCopy_isolation_witness:
  "allocated (fst (allocate empty_heap started_two)) original_ref \<and>
   (\<exists>h' a'. exec (\<lambda>a. snd (allocateFreeDevices cap_limit_64 1 ''c9'' a))
        heap_after_copy original_ref =
        Some (h', a') \<and>
      map_of (Devices (view h' a')) (gpu 0) = Some (Some ''c9'') \<and>
      map_of (Devices (view h' copy_ref)) (gpu 0) = Some None \<and>
      map_of (containerState (view h' a')) ''c9'' \<noteq> None \<and>
      map_of (containerState (view h' copy_ref)) ''c9'' = None)"
proof -
  let ?f = "\<lambda>a. snd (allocateFreeDevices cap_limit_64 1 ''c9'' a)"
  have h: "allocated (fst (allocate empty_heap started_two)) original_ref"
    by (simp add: allocated_def original_ref_def allocate_def empty_heap_def Let_def)
  have fd: "map_of (Devices (?f started_two)) (gpu 0) = Some (Some ''c9'')"
    "map_of (containerState (?f started_two)) ''c9'' \<noteq> None"
    by (simp_all add: started_two_eq allocateFreeDevices_def cap_limit_64_def Let_def gpu_def)
  have sd: "map_of (Devices started_two) (gpu 0) = Some None"
    "map_of (containerState started_two) ''c9'' = None"
    by (simp_all add: started_two_eq gpu_def)
  from deepCopy_isolation [OF h, of ?f] obtain h' a' where
    e: "exec ?f (fst (deepCopy (fst (allocate empty_heap started_two)) original_ref))
          original_ref = Some (h', a')"
    and v: "view h' a' = ?f (view (fst (allocate empty_heap started_two)) original_ref)"
    and d: "Devices (view h' (snd (deepCopy (fst (allocate empty_heap started_two)) original_ref))) =
          Devices (view (fst (allocate empty_heap started_two)) original_ref)"
    and c: "containerState
          (view h' (snd (deepCopy (fst (allocate empty_heap started_two)) original_ref))) =
          containerState (view (fst (allocate empty_heap started_two)) original_ref)"
    by blast
  have ex: "\<exists>h' a'. exec ?f heap_after_copy original_ref = Some (h', a') \<and>
      map_of (Devices (view h' a')) (gpu 0) = Some (Some ''c9'') \<and>
      map_of (Devices (view h' copy_ref)) (gpu 0) = Some None \<and>
      map_of (containerState (view h' a')) ''c9'' \<noteq> None \<and>
      map_of (containerState (view h' copy_ref)) ''c9'' = None"
    apply (rule exI [of _ h'], rule exI [of _ a'])
    using e v d c fd sd
    by (simp add: heap_after_copy_def copy_ref_def view_original)
  from h ex show ?thesis by (rule conjI)
qed

end
